theory Spec2Isabelle
  imports Complex_Main "HOL-Library.Sublist" "HOL-Library.Word"
begin

unbundle bit_operations_syntax

section \<open>RPC fan-out: MultinodePublicClient\<close>

text \<open>
  A JavaScript value returned by an RPC method. Only the distinctions the client
  makes are kept: \<open>null\<close>, \<open>undefined\<close>, a bigint, an array, and any other value
  (named by an opaque tag).
\<close>

datatype rpc_value =
    JNull
  | JUndefined
  | JBigInt int
  | JArray "rpc_value list"
  | JOther string

datatype ConsensusStrategy = FirstSuccess | MostLogs | HighestBlock

text \<open>
  What one endpoint does when the method is invoked on it: the client has no such
  method, the call rejects (an RPC error or the transport's timeout), or it fulfils.
\<close>

datatype node_outcome =
    NotAFunction
  | Rejects string
  | Fulfils rpc_value

datatype js_error = Error string

record node_result =
  success :: bool
  result :: rpc_value
  error :: "string option"

text \<open>The body of the per-node async arrow function of \<open>executeParallel\<close>.\<close>

definition callNode :: "string \<Rightarrow> node_outcome \<Rightarrow> node_result" where
  "callNode meth out =
     (case out of
        NotAFunction \<Rightarrow>
          \<lparr>success = False, result = JNull,
           error = Some (''Method '' @ meth @ '' is not a function'')\<rparr>
      | Rejects e \<Rightarrow> \<lparr>success = False, result = JNull, error = Some e\<rparr>
      | Fulfils v \<Rightarrow> \<lparr>success = True, result = v, error = None\<rparr>)"

datatype 'a settled = Fulfilled 'a | Rejected string

fun isFulfilled :: "'a settled \<Rightarrow> bool" where
  "isFulfilled (Fulfilled _) = True"
| "isFulfilled (Rejected _) = False"

fun settledValue :: "'a settled \<Rightarrow> 'a option" where
  "settledValue (Fulfilled v) = Some v"
| "settledValue (Rejected _) = None"

fun isArray :: "rpc_value \<Rightarrow> bool" where
  "isArray (JArray _) = True"
| "isArray _ = False"

fun arrayLength :: "rpc_value \<Rightarrow> nat" where
  "arrayLength (JArray xs) = length xs"
| "arrayLength _ = 0"

fun isBigInt :: "rpc_value \<Rightarrow> bool" where
  "isBigInt (JBigInt _) = True"
| "isBigInt _ = False"

fun bigIntOr0 :: "rpc_value \<Rightarrow> int" where
  "bigIntOr0 (JBigInt n) = n"
| "bigIntOr0 _ = 0"

definition moreLogs :: "rpc_value \<Rightarrow> rpc_value \<Rightarrow> rpc_value" where
  "moreLogs prev current =
     (if isArray current \<and> arrayLength current > (if isArray prev then arrayLength prev else 0)
      then current else prev)"

definition higherBlock :: "rpc_value \<Rightarrow> rpc_value \<Rightarrow> rpc_value" where
  "higherBlock prev current =
     (if isBigInt current \<and> bigIntOr0 current > (if isBigInt prev then bigIntOr0 prev else 0)
      then current else prev)"

text \<open>
  \<open>results[0]\<close> of an empty array is \<open>undefined\<close>; \<open>reduce\<close> without an initial
  value starts from the first element.
\<close>

fun applyConsensusStrategy :: "rpc_value list \<Rightarrow> ConsensusStrategy \<Rightarrow> rpc_value" where
  "applyConsensusStrategy [] _ = JUndefined"
| "applyConsensusStrategy (r # rs) FirstSuccess = r"
| "applyConsensusStrategy (r # rs) MostLogs =
     (if isArray r then foldl moreLogs r rs else r)"
| "applyConsensusStrategy (r # rs) HighestBlock =
     (if isBigInt r then foldl higherBlock r rs else r)"

definition successfulResults :: "string \<Rightarrow> node_outcome list \<Rightarrow> node_result list" where
  "successfulResults meth outs =
     filter (\<lambda>r. success r \<and> result r \<noteq> JNull)
       (List.map_filter settledValue
          (filter isFulfilled (map (\<lambda>out. Fulfilled (callNode meth out)) outs)))"

definition executeParallel ::
  "string \<Rightarrow> node_outcome list \<Rightarrow> ConsensusStrategy \<Rightarrow> js_error + rpc_value" where
  "executeParallel meth outs strategy =
     (let successful = successfulResults meth outs in
      if length successful = 0
      then Inl (Error (''[RPC FAIL] All nodes failed for method: '' @ meth))
      else Inr (applyConsensusStrategy (map result successful) strategy))"

text \<open>The non-null values the endpoints fulfilled with, in endpoint order.\<close>

fun fulfilledNonNull :: "node_outcome list \<Rightarrow> rpc_value list" where
  "fulfilledNonNull [] = []"
| "fulfilledNonNull (Fulfils v # outs) =
     (if v = JNull then fulfilledNonNull outs else v # fulfilledNonNull outs)"
| "fulfilledNonNull (_ # outs) = fulfilledNonNull outs"

lemma successfulResults_results:
  "map result (successfulResults meth outs) = fulfilledNonNull outs"
  by (induction outs rule: fulfilledNonNull.induct)
     (simp_all add: successfulResults_def callNode_def List.map_filter_simps)

lemma executeParallel_eq:
  "executeParallel meth outs strategy =
     (if fulfilledNonNull outs = []
      then Inl (Error (''[RPC FAIL] All nodes failed for method: '' @ meth))
      else Inr (applyConsensusStrategy (fulfilledNonNull outs) strategy))"
proof -
  have "length (successfulResults meth outs) = length (fulfilledNonNull outs)"
    by (metis successfulResults_results length_map)
  then have "(successfulResults meth outs = []) = (fulfilledNonNull outs = [])"
    by (metis length_0_conv)
  then show ?thesis
    by (simp add: executeParallel_def Let_def successfulResults_results)
qed

lemma fulfilledNonNull_append:
  "fulfilledNonNull (xs @ ys) = fulfilledNonNull xs @ fulfilledNonNull ys"
  by (induction xs rule: fulfilledNonNull.induct) simp_all

lemma fulfilledNonNull_replicate_null:
  "fulfilledNonNull (replicate n (Fulfils JNull)) = []"
  by (induction n) simp_all

text \<open>
  C10. An endpoint that fulfils with \<open>null\<close> is counted exactly like an endpoint that
  failed: replacing it by a rejecting endpoint (or by one without the method) does not
  change the outcome of the call. In particular, when every endpoint fulfils with
  \<open>null\<close> and none raises, the call throws the all-nodes-failed error and does not
  return \<open>null\<close>.
\<close>

theorem executeParallel_null_counts_as_failed:
  "executeParallel meth (pre @ Fulfils JNull # post) strategy
     = executeParallel meth (pre @ Rejects e # post) strategy
   \<and> executeParallel meth (pre @ Fulfils JNull # post) strategy
     = executeParallel meth (pre @ NotAFunction # post) strategy
   \<and> executeParallel meth (replicate n (Fulfils JNull)) strategy
     = Inl (Error (''[RPC FAIL] All nodes failed for method: '' @ meth))"
  by (simp add: executeParallel_eq fulfilledNonNull_append fulfilledNonNull_replicate_null)

section \<open>JavaScript strings\<close>

text \<open>
  Strings are lists of characters. \<open>s.slice(a, b)\<close> and \<open>s.substring(a, b)\<close> with
  \<open>0 \<le> a \<le> b\<close> (the only way the code calls them) keep the characters at the
  positions \<open>a \<le> i < b\<close> that exist.
\<close>

definition jsSlice :: "nat \<Rightarrow> nat \<Rightarrow> string \<Rightarrow> string" where
  "jsSlice a b s = take (b - a) (drop a s)"

definition upperLetters :: string where
  "upperLetters = ''ABCDEFGHIJKLMNOPQRSTUVWXYZ''"

definition lowerLetters :: string where
  "lowerLetters = ''abcdefghijklmnopqrstuvwxyz''"

definition toLowerChar :: "char \<Rightarrow> char" where
  "toLowerChar c = (case map_of (zip upperLetters lowerLetters) c of Some d \<Rightarrow> d | None \<Rightarrow> c)"

definition toUpperChar :: "char \<Rightarrow> char" where
  "toUpperChar c = (case map_of (zip lowerLetters upperLetters) c of Some d \<Rightarrow> d | None \<Rightarrow> c)"

definition toLowerCase :: "string \<Rightarrow> string" where
  "toLowerCase s = map toLowerChar s"

text \<open>\<open>[...new Set(xs)]\<close>: the distinct elements in the order of their first occurrence.\<close>

definition setAdd :: "'a list \<Rightarrow> 'a \<Rightarrow> 'a list" where
  "setAdd acc x = (if x \<in> set acc then acc else acc @ [x])"

definition newSet :: "'a list \<Rightarrow> 'a list" where
  "newSet xs = foldl setAdd [] xs"

section \<open>Address utilities of the viem library\<close>

text \<open>
  \<open>isAddress\<close> and \<open>getAddress\<close> are imported from viem. Their behaviour is the
  EIP-55 checksum over Keccak-256 of the lower-cased hexadecimal digits: Keccak-f[1600]
  on 25 lanes of 64 bits, rate 136 bytes, padding \<open>0x01 .. 0x80\<close>.
\<close>

type_synonym lane = "64 word"

definition roundConstants :: "lane list" where
  "roundConstants =
    [0x0000000000000001, 0x0000000000008082, 0x800000000000808A, 0x8000000080008000,
     0x000000000000808B, 0x0000000080000001, 0x8000000080008081, 0x8000000000008009,
     0x000000000000008A, 0x0000000000000088, 0x0000000080008009, 0x000000008000000A,
     0x000000008000808B, 0x800000000000008B, 0x8000000000008089, 0x8000000000008003,
     0x8000000000008002, 0x8000000000000080, 0x000000000000800A, 0x800000008000000A,
     0x8000000080008081, 0x8000000000008080, 0x0000000080000001, 0x8000000080008008]"

text \<open>Rotation offsets, indexed by \<open>x + 5 * y\<close>.\<close>

definition rotationOffsets :: "nat list" where
  "rotationOffsets =
    [0, 1, 62, 28, 27,
     36, 44, 6, 55, 20,
     3, 10, 43, 25, 39,
     41, 45, 15, 21, 8,
     18, 2, 61, 56, 14]"

definition laneAt :: "lane list \<Rightarrow> nat \<Rightarrow> nat \<Rightarrow> lane" where
  "laneAt a x y = a ! ((x mod 5) + 5 * (y mod 5))"

definition theta :: "lane list \<Rightarrow> lane list" where
  "theta a =
     (let c = map (\<lambda>x. laneAt a x 0 XOR laneAt a x 1 XOR laneAt a x 2 XOR laneAt a x 3
                        XOR laneAt a x 4) [0..<5];
          d = map (\<lambda>x. (c ! ((x + 4) mod 5)) XOR word_rotl 1 (c ! ((x + 1) mod 5))) [0..<5]
      in map (\<lambda>i. (a ! i) XOR (d ! (i mod 5))) [0..<25])"

text \<open>
  Rho and pi together: the lane at \<open>(x, y)\<close> is rotated and moved to
  \<open>(y, 2x + 3y)\<close>; read from the target \<open>(tx, ty)\<close>, the source is
  \<open>((tx + 3 ty) mod 5, tx)\<close>.
\<close>

definition rhoPi :: "lane list \<Rightarrow> lane list" where
  "rhoPi a =
     map (\<lambda>i. let tx = i mod 5; ty = i div 5; x = (tx + 3 * ty) mod 5; y = tx
              in word_rotl (rotationOffsets ! (x + 5 * y)) (laneAt a x y)) [0..<25]"

definition chi :: "lane list \<Rightarrow> lane list" where
  "chi b =
     map (\<lambda>i. let x = i mod 5; y = i div 5
              in laneAt b x y XOR ((NOT (laneAt b (x + 1) y)) AND laneAt b (x + 2) y)) [0..<25]"

definition iota :: "nat \<Rightarrow> lane list \<Rightarrow> lane list" where
  "iota r a = a[0 := (a ! 0) XOR (roundConstants ! r)]"

definition keccakRound :: "lane list \<Rightarrow> nat \<Rightarrow> lane list" where
  "keccakRound a r = iota r (chi (rhoPi (theta a)))"

definition keccakF :: "lane list \<Rightarrow> lane list" where
  "keccakF a = foldl keccakRound a [0..<24]"

definition laneOfBytes :: "nat list \<Rightarrow> lane" where
  "laneOfBytes bs = word_of_nat (foldr (\<lambda>b acc. b + 256 * acc) bs 0)"

definition bytesOfLane :: "lane \<Rightarrow> nat list" where
  "bytesOfLane w = map (\<lambda>k. (unat w div 256 ^ k) mod 256) [0..<8]"

definition absorbBlock :: "lane list \<Rightarrow> nat list \<Rightarrow> lane list" where
  "absorbBlock st block =
     keccakF (map (\<lambda>i. if i < 17 then (st ! i) XOR laneOfBytes (take 8 (drop (8 * i) block))
                        else st ! i) [0..<25])"

definition keccakPad :: "nat list \<Rightarrow> nat list" where
  "keccakPad m =
     (let k = 136 - (length m mod 136) in
      if k = 1 then m @ [0x81] else m @ [0x01] @ replicate (k - 2) 0 @ [0x80])"

fun rateBlocks :: "nat \<Rightarrow> nat list \<Rightarrow> nat list list" where
  "rateBlocks 0 bs = []"
| "rateBlocks (Suc n) bs = take 136 bs # rateBlocks n (drop 136 bs)"

definition keccak256 :: "nat list \<Rightarrow> nat list" where
  "keccak256 m =
     (let p = keccakPad m;
          st = foldl absorbBlock (replicate 25 0) (rateBlocks (length p div 136) p)
      in concat (map bytesOfLane (take 4 st)))"

definition stringToBytes :: "string \<Rightarrow> nat list" where
  "stringToBytes s = map of_char s"

definition hashNibbles :: "nat list \<Rightarrow> nat list" where
  "hashNibbles h = concat (map (\<lambda>b. [b div 16, b mod 16]) h)"

text \<open>
  \<open>checksumAddress\<close> (no chain id): the digits after \<open>0x\<close> are lower-cased, and
  the digit at position \<open>i < 40\<close> is upper-cased when the \<open>i\<close>-th nibble of the hash
  is at least 8.
\<close>

definition checksumAddress :: "string \<Rightarrow> string" where
  "checksumAddress address =
     (let hexAddress = toLowerCase (drop 2 address);
          nibbles = hashNibbles (keccak256 (stringToBytes hexAddress))
      in ''0x'' @ map (\<lambda>(i, c). if i < 40 \<and> nibbles ! i \<ge> 8 then toUpperChar c else c)
                   (enumerate 0 hexAddress))"

definition isHexChar :: "char \<Rightarrow> bool" where
  "isHexChar c = (c \<in> set ''0123456789abcdefABCDEF'')"

text \<open>The regular expression \<open>/^0x[a-fA-F0-9]{40}$/\<close>.\<close>

definition addressRegex :: "string \<Rightarrow> bool" where
  "addressRegex a = (prefix ''0x'' a \<and> length a = 42 \<and> list_all isHexChar (drop 2 a))"

text \<open>\<open>isAddress(a)\<close> in its default strict mode, and \<open>isAddress(a, {strict: false})\<close>.\<close>

definition isAddress :: "string \<Rightarrow> bool" where
  "isAddress a =
     (if \<not> addressRegex a then False
      else if toLowerCase a = a then True
      else checksumAddress a = a)"

definition isAddressNonStrict :: "string \<Rightarrow> bool" where
  "isAddressNonStrict a = addressRegex a"

datatype viem_error = InvalidAddressError string

definition getAddress :: "string \<Rightarrow> viem_error + string" where
  "getAddress a =
     (if \<not> isAddressNonStrict a then Inl (InvalidAddressError a)
      else Inr (checksumAddress a))"

section \<open>AddressExtractor\<close>

text \<open>
  \<open>extractTransferRecipient\<close>: every exception inside the \<open>try\<close> block ends in
  \<open>return null\<close>.
\<close>

definition extractTransferRecipient :: "string \<Rightarrow> string option" where
  "extractTransferRecipient data =
     (if prefix ''0xa9059cbb'' data \<and> length data \<ge> 74 then
        (let addressHex = ''0x'' @ jsSlice 34 74 data in
         if isAddress addressHex then
           (case getAddress addressHex of
              Inr a \<Rightarrow> Some a
            | Inl e \<Rightarrow> None)
         else None)
      else None)"

fun chunks64 :: "string \<Rightarrow> string list" where
  "chunks64 [] = []"
| "chunks64 (c # cs) = take 64 (c # cs) # chunks64 (drop 64 (c # cs))"

text \<open>One iteration of the inner loop: the addresses pushed for one chunk.\<close>

definition chunkAddresses :: "string \<Rightarrow> string list" where
  "chunkAddresses chunk =
     (if jsSlice 0 24 chunk = ''000000000000000000000000'' then
        (let addressHex = ''0x'' @ jsSlice 24 64 chunk in
         if isAddress addressHex then
           (case getAddress addressHex of
              Inr a \<Rightarrow> [toLowerCase a]
            | Inl e \<Rightarrow> [])
         else [])
      else [])"

definition extractAddressesFromCalldata :: "string \<Rightarrow> string list" where
  "extractAddressesFromCalldata data =
     (if data = [] \<or> length data < 76 then []
      else newSet (concat (map (\<lambda>offset. concat (map chunkAddresses (chunks64 (drop offset data))))
                               [2, 10])))"

lemma isAddress_getAddress:
  "isAddress a \<Longrightarrow> getAddress a = Inr (checksumAddress a)"
  by (simp add: isAddress_def getAddress_def isAddressNonStrict_def split: if_splits)

lemma addressRegex_0x:
  "addressRegex (''0x'' @ f) = (length f = 40 \<and> list_all isHexChar f)"
  by (auto simp: addressRegex_def)

lemma toLowerCase_0x:
  "(toLowerCase (''0x'' @ f) = ''0x'' @ f) = (toLowerCase f = f)"
  by (simp add: toLowerCase_def toLowerChar_def upperLetters_def lowerLetters_def)

lemma isAddress_0x:
  "isAddress (''0x'' @ f) =
     (length f = 40 \<and> list_all isHexChar f
      \<and> (toLowerCase f = f \<or> checksumAddress (''0x'' @ f) = ''0x'' @ f))"
  unfolding isAddress_def addressRegex_0x toLowerCase_0x by auto

subsection \<open>Claims about the RPC fan-out\<close>

lemma fulfilledNonNull_empty_iff:
  "(fulfilledNonNull outs = []) = (\<not> (\<exists>v. v \<noteq> JNull \<and> Fulfils v \<in> set outs))"
  by (induction outs rule: fulfilledNonNull.induct) auto

text \<open>
  C5, as the code has it. A call through \<open>executeParallel\<close> succeeds exactly when some
  endpoint fulfils with a value other than \<open>null\<close>; the result is then the consensus
  reduction of the non-null fulfilled values. Otherwise (every endpoint rejects, times
  out, lacks the method or fulfils with \<open>null\<close>) the call throws one error whose message
  names the method only; no per-endpoint error is carried.
\<close>

theorem executeParallel_fails_iff_no_non_null:
  "executeParallel meth outs strategy =
     (if \<exists>v. v \<noteq> JNull \<and> Fulfils v \<in> set outs
      then Inr (applyConsensusStrategy (fulfilledNonNull outs) strategy)
      else Inl (Error (''[RPC FAIL] All nodes failed for method: '' @ meth)))"
  by (simp add: executeParallel_eq fulfilledNonNull_empty_iff)

text \<open>
  C5 as stated fails: with one endpoint timing out and one fulfilling with \<open>null\<close> (a
  non-error result) the call still fails, and the failure thrown for two different
  endpoint errors is the same value, so it carries no per-endpoint error.
\<close>

theorem executeParallel_failure_counterexample:
  "executeParallel ''getBalance'' [Rejects ''timeout'', Fulfils JNull] FirstSuccess
     = Inl (Error ''[RPC FAIL] All nodes failed for method: getBalance'')
   \<and> executeParallel ''getBalance'' [Rejects ''timeout''] FirstSuccess
     = executeParallel ''getBalance'' [Rejects ''connection refused''] FirstSuccess"
  by (simp add: executeParallel_eq)

subsection \<open>Claims about the transfer recipient\<close>

lemma jsSlice_length: "b \<le> length s \<Longrightarrow> length (jsSlice a b s) = b - a"
  by (simp add: jsSlice_def)

text \<open>
  C8, as the code has it. \<open>extractTransferRecipient\<close> returns an address exactly when
  the calldata string starts with \<open>0xa9059cbb\<close>, has at least 74 characters (the
  selector and 32 bytes after it), and the 40 characters at positions 34 to 73 (the 20
  trailing bytes of the first 32-byte argument) are hexadecimal digits that are either
  all lower-case or already in checksum case. It then returns these 20 bytes in
  checksum case, and null in every other case.
\<close>

theorem extractTransferRecipient_spec:
  "extractTransferRecipient data =
     (let field = jsSlice 34 74 data in
      if prefix ''0xa9059cbb'' data \<and> 74 \<le> length data \<and> list_all isHexChar field
         \<and> (toLowerCase field = field \<or> checksumAddress (''0x'' @ field) = ''0x'' @ field)
      then Some (checksumAddress (''0x'' @ field)) else None)"
proof (cases "prefix ''0xa9059cbb'' data \<and> 74 \<le> length data")
  case True
  define field where "field = jsSlice 34 74 data"
  from True have len: "length field = 40"
    by (simp add: field_def jsSlice_length)
  have lhs: "extractTransferRecipient data =
      (if isAddress (''0x'' @ field) then Some (checksumAddress (''0x'' @ field)) else None)"
    using True by (simp add: extractTransferRecipient_def Let_def field_def isAddress_getAddress)
  have "isAddress (''0x'' @ field) =
      (list_all isHexChar field
       \<and> (toLowerCase field = field \<or> checksumAddress (''0x'' @ field) = ''0x'' @ field))"
    using len by (simp only: isAddress_0x simp_thms)
  with lhs True show ?thesis
    by (simp only: Let_def field_def [symmetric] simp_thms)
next
  case False
  then show ?thesis
    by (auto simp: extractTransferRecipient_def Let_def)
qed

text \<open>
  C8 as stated fails: a calldata string of 74 characters has only 32 bytes after the
  selector, fewer than 36, and the recipient is returned all the same.
\<close>

theorem extractTransferRecipient_counterexample:
  "length (''0xa9059cbb'' @ ''000000000000000000000000''
             @ ''5aaeb6053f3e94c9b9a09f33669435e7ef1beaed'') = 74
   \<and> extractTransferRecipient
        (''0xa9059cbb'' @ ''000000000000000000000000''
           @ ''5aaeb6053f3e94c9b9a09f33669435e7ef1beaed'')
      = Some (checksumAddress ''0x5aaeb6053f3e94c9b9a09f33669435e7ef1beaed'')"
  by (simp add: extractTransferRecipient_def Let_def jsSlice_def isAddress_def addressRegex_def
      isHexChar_def toLowerCase_def toLowerChar_def upperLetters_def lowerLetters_def
      getAddress_def isAddressNonStrict_def)

section \<open>Normalized transactions\<close>

text \<open>
  \<open>TransactionData\<close> of \<open>transport/types.ts\<close>. The fields carry the prefix \<open>tx\<close>
  (\<open>txFrom\<close> is \<open>from\<close>, \<open>txValue\<close> is \<open>value\<close>, and so on); a bigint and a number
  are integers, a nullable field is an option.
\<close>

record TransactionData =
  txHash :: string
  txBlockNumber :: "int option"
  txBlockHash :: "string option"
  txIndex :: int
  txTo :: "string option"
  txFrom :: string
  txNonce :: int
  txGas :: int
  txGasPrice :: "int option"
  txMaxPriorityFeePerGas :: "int option"
  txMaxFeePerGas :: "int option"
  txData :: string
  txValue :: int
  txChainId :: int
  txSource :: string

text \<open>The transaction object of the RPC library; an absent or null field is \<open>None\<close>.\<close>

record RawTransaction =
  rawHash :: string
  rawBlockNumber :: "int option"
  rawBlockHash :: "string option"
  rawTransactionIndex :: "int option"
  rawTo :: "string option"
  rawFrom :: string
  rawNonce :: "int option"
  rawGas :: "int option"
  rawGasPrice :: "int option"
  rawMaxPriorityFeePerGas :: "int option"
  rawMaxFeePerGas :: "int option"
  rawInput :: "string option"
  rawValue :: "int option"
  rawChainId :: "int option"

text \<open>\<open>x || d\<close> and \<open>x ? x : null\<close> on numbers and strings: zero and the empty string are falsy.\<close>

definition truthyInt :: "int option \<Rightarrow> int option" where
  "truthyInt x = (case x of Some n \<Rightarrow> (if n = 0 then None else Some n) | None \<Rightarrow> None)"

definition truthyString :: "string option \<Rightarrow> string option" where
  "truthyString x = (case x of Some s \<Rightarrow> (if s = [] then None else Some s) | None \<Rightarrow> None)"

definition orElse :: "'a option \<Rightarrow> 'a \<Rightarrow> 'a" where
  "orElse x d = (case x of Some v \<Rightarrow> v | None \<Rightarrow> d)"

definition digitChar :: "nat \<Rightarrow> char" where
  "digitChar n = ''0123456789'' ! (n mod 10)"

function natToString :: "nat \<Rightarrow> string" where
  "natToString n = (if n < 10 then [digitChar n] else natToString (n div 10) @ [digitChar n])"
  by pat_completeness auto
termination
  by (relation "measure (\<lambda>n. n)") auto

declare natToString.simps [simp del]

definition bigintToString :: "int \<Rightarrow> string" where
  "bigintToString n = (if n < 0 then ''-'' @ natToString (nat (- n)) else natToString (nat n))"

definition normalizeTransaction :: "RawTransaction \<Rightarrow> TransactionData" where
  "normalizeTransaction tx =
     \<lparr>txHash = rawHash tx,
      txBlockNumber = truthyInt (rawBlockNumber tx),
      txBlockHash = truthyString (rawBlockHash tx),
      txIndex = orElse (truthyInt (rawTransactionIndex tx)) 0,
      txTo = truthyString (rawTo tx),
      txFrom = rawFrom tx,
      txNonce = orElse (truthyInt (rawNonce tx)) 0,
      txGas = orElse (truthyInt (rawGas tx)) 0,
      txGasPrice = truthyInt (rawGasPrice tx),
      txMaxPriorityFeePerGas = truthyInt (rawMaxPriorityFeePerGas tx),
      txMaxFeePerGas = truthyInt (rawMaxFeePerGas tx),
      txData = orElse (truthyString (rawInput tx)) ''0x'',
      txValue = orElse (truthyInt (rawValue tx)) 0,
      txChainId = orElse (truthyInt (rawChainId tx)) 0,
      txSource = (case rawBlockNumber tx of Some n \<Rightarrow> bigintToString n | None \<Rightarrow> ''block'')\<rparr>"

section \<open>BlockReader\<close>

datatype BlockTransaction = TxHashOnly string | TxObject RawTransaction

record Block =
  blockNumber :: "int option"
  blockHash :: "string option"
  blockTimestamp :: "int option"
  blockTransactions :: "BlockTransaction list"

record BlockData =
  bdSource :: string
  bdNumber :: int
  bdHash :: string
  bdTimestamp :: int
  bdTransactions :: "TransactionData list"

datatype ReaderEvent = NewTransaction TransactionData | NewBlock BlockData

text \<open>
  The two sliding sets of the reader. A JavaScript \<open>Set\<close> iterates in insertion order,
  so each is a list without duplicates, oldest entry first. The block keys are the
  decimal strings of the block numbers in the source; the numbers themselves here.
\<close>

record ReaderState =
  processedBlocks :: "int list"
  processedTransactions :: "string list"

definition BLOCK_WINDOW :: int where
  "BLOCK_WINDOW = 200"

definition TX_WINDOW :: nat where
  "TX_WINDOW = 10000"

definition setDelete :: "'a list \<Rightarrow> 'a \<Rightarrow> 'a list" where
  "setDelete s x = removeAll x s"

text \<open>
  \<open>processTransaction\<close>: the new set of hashes and the transactions emitted as
  \<open>new_transaction\<close> (none or one).
\<close>

definition processTransaction ::
  "string list \<Rightarrow> TransactionData \<Rightarrow> string list \<times> TransactionData list" where
  "processTransaction processed txd =
     (if txHash txd \<in> set processed then (processed, [])
      else
        (let added = setAdd processed (txHash txd) in
         if length added > TX_WINDOW
         then (foldl setDelete added (take (TX_WINDOW div 2) added), [txd])
         else (added, [txd])))"

fun processTransactions ::
  "string list \<Rightarrow> TransactionData list \<Rightarrow> string list \<times> TransactionData list" where
  "processTransactions processed [] = (processed, [])"
| "processTransactions processed (txd # rest) =
     (let (p1, e1) = processTransaction processed txd;
          (p2, e2) = processTransactions p1 rest
      in (p2, e1 @ e2))"

text \<open>The transactions of a block that are objects, normalized.\<close>

fun blockNormalized :: "BlockTransaction list \<Rightarrow> TransactionData list" where
  "blockNormalized [] = []"
| "blockNormalized (TxHashOnly h # rest) = blockNormalized rest"
| "blockNormalized (TxObject tx # rest) = normalizeTransaction tx # blockNormalized rest"

text \<open>
  \<open>processBlock\<close>: the new state and the events emitted, in order. Each normalized
  transaction is passed to \<open>processTransaction\<close> with \<open>source: "block"\<close>.
\<close>

definition processBlock :: "ReaderState \<Rightarrow> Block \<Rightarrow> ReaderState \<times> ReaderEvent list" where
  "processBlock st block =
     (case (blockNumber block, blockHash block) of
        (Some number, Some bhash) \<Rightarrow>
          if number \<in> set (processedBlocks st) then (st, [])
          else
            (let blocks1 = setAdd (processedBlocks st) number;
                 normalized = blockNormalized (blockTransactions block);
                 (txs1, emitted) =
                   processTransactions (processedTransactions st)
                     (map (\<lambda>t. t\<lparr>txSource := ''block''\<rparr>) normalized);
                 blockData = \<lparr>bdSource = ''READER'', bdNumber = number, bdHash = bhash,
                              bdTimestamp = orElse (blockTimestamp block) 0,
                              bdTransactions = normalized\<rparr>;
                 blocks2 = (if number > BLOCK_WINDOW
                            then setDelete blocks1 (number - BLOCK_WINDOW) else blocks1)
             in (\<lparr>processedBlocks = blocks2, processedTransactions = txs1\<rparr>,
                 map NewTransaction emitted @ [NewBlock blockData]))
      | _ \<Rightarrow> (st, []))"

fun processBlocks :: "ReaderState \<Rightarrow> Block list \<Rightarrow> ReaderState \<times> ReaderEvent list" where
  "processBlocks st [] = (st, [])"
| "processBlocks st (b # bs) =
     (let (st1, e1) = processBlock st b;
          (st2, e2) = processBlocks st1 bs
      in (st2, e1 @ e2))"

definition initialReaderState :: ReaderState where
  "initialReaderState = \<lparr>processedBlocks = [], processedTransactions = []\<rparr>"

fun eventHashes :: "ReaderEvent list \<Rightarrow> string list" where
  "eventHashes [] = []"
| "eventHashes (NewTransaction t # es) = txHash t # eventHashes es"
| "eventHashes (NewBlock b # es) = eventHashes es"
subsection \<open>Claims about the transaction window\<close>

definition emittedHashes :: "Block list \<Rightarrow> string list" where
  "emittedHashes blocks = eventHashes (snd (processBlocks initialReaderState blocks))"

definition txWindowAfter :: "Block list \<Rightarrow> string list" where
  "txWindowAfter blocks = processedTransactions (fst (processBlocks initialReaderState blocks))"

text \<open>
  The invariant that links the set of recent hashes \<open>w\<close> to the hashes emitted so far
  \<open>em\<close>: the set is duplicate-free, holds the most recent emissions (at least the last
  5001 of them, at most 10000), and equal emissions are more than 5001 apart.
\<close>

definition windowInv :: "string list \<Rightarrow> string list \<Rightarrow> bool" where
  "windowInv w em =
     (distinct w \<and> suffix w em \<and> length w \<le> TX_WINDOW \<and> min (length em) 5001 \<le> length w
      \<and> (\<forall>i j. i < j \<and> j < length em \<and> j \<le> i + 5001 \<longrightarrow> em ! i \<noteq> em ! j))"

lemma foldl_setDelete: "foldl setDelete ys ds = filter (\<lambda>y. y \<notin> set ds) ys"
proof (induction ds arbitrary: ys)
  case Nil
  then show ?case by simp
next
  case (Cons d ds)
  have "filter (\<lambda>y. y \<notin> set ds) (removeAll d ys) = filter (\<lambda>y. y \<notin> set (d # ds)) ys"
    by (induction ys) auto
  with Cons show ?case by (simp add: setDelete_def)
qed

lemma evict_oldest:
  assumes "distinct xs"
  shows "foldl setDelete xs (take n xs) = drop n xs"
proof -
  have d: "distinct (take n xs @ drop n xs)"
    using assms by simp
  have "filter (\<lambda>y. y \<notin> set (take n xs)) (take n xs @ drop n xs) = drop n xs"
    using d by (auto simp: filter_empty_conv filter_id_conv simp del: append_take_drop_id)
  then show ?thesis
    by (simp add: foldl_setDelete)
qed

lemma processTransaction_distinct:
  assumes "distinct w"
  shows "processTransaction w t =
     (if txHash t \<in> set w then (w, [])
      else (if length w \<ge> TX_WINDOW then drop (TX_WINDOW div 2) (w @ [txHash t])
            else w @ [txHash t], [t]))"
proof (cases "txHash t \<in> set w")
  case True
  then show ?thesis by (simp add: processTransaction_def)
next
  case False
  define added where "added = w @ [txHash t]"
  from assms False have "distinct added" by (simp add: added_def)
  from evict_oldest [OF this]
  have ev: "foldl setDelete added (take (TX_WINDOW div 2) added) = drop (TX_WINDOW div 2) added" .
  have len: "length added = Suc (length w)" by (simp add: added_def)
  have "processTransaction w t =
      (if length added > TX_WINDOW
       then (foldl setDelete added (take (TX_WINDOW div 2) added), [t]) else (added, [t]))"
    using False by (simp add: processTransaction_def setAdd_def added_def)
  also have "\<dots> = (if length w \<ge> TX_WINDOW then drop (TX_WINDOW div 2) added else added, [t])"
    by (simp only: ev len less_Suc_eq_le split: if_splits) simp
  finally show ?thesis
    using False by (simp only: added_def if_False)
qed

lemma suffix_nth_mem:
  assumes "suffix w em" and "length em - length w \<le> i" and "i < length em"
  shows "em ! i \<in> set w"
proof -
  from assms(1) obtain pre where em: "em = pre @ w"
    by (auto simp: suffix_def)
  with assms(2,3) have "length pre \<le> i" and "i - length pre < length w"
    by auto
  then show ?thesis
    by (simp add: em nth_append)
qed

lemma windowInv_step:
  assumes inv: "windowInv w em" and new: "h \<notin> set w"
  shows "windowInv (if length w \<ge> TX_WINDOW then drop (TX_WINDOW div 2) (w @ [h]) else w @ [h])
           (em @ [h])"
proof -
  from inv have dw: "distinct w" and sw: "suffix w em" and lw: "length w \<le> TX_WINDOW"
    and mw: "min (length em) 5001 \<le> length w"
    and gap: "\<And>i j. i < j \<Longrightarrow> j < length em \<Longrightarrow> j \<le> i + 5001 \<Longrightarrow> em ! i \<noteq> em ! j"
    by (auto simp: windowInv_def)
  let ?w' = "if length w \<ge> TX_WINDOW then drop (TX_WINDOW div 2) (w @ [h]) else w @ [h]"
  have d: "distinct (w @ [h])" using dw new by simp
  have s: "suffix (w @ [h]) (em @ [h])" using sw by simp
  have 1: "distinct ?w'" using d distinct_drop [OF d, of "TX_WINDOW div 2"] by presburger
  have 2: "suffix ?w' (em @ [h])"
    using s suffix_drop [of "TX_WINDOW div 2" "w @ [h]"] by (auto intro: suffix_order.trans)
  have l: "length (drop (TX_WINDOW div 2) (w @ [h])) = Suc (length w) - TX_WINDOW div 2"
    by (simp only: length_drop length_append_singleton)
  have 3: "length ?w' \<le> TX_WINDOW" using lw by (simp only: l split: if_splits) (simp add: TX_WINDOW_def)
  have 4: "min (length (em @ [h])) 5001 \<le> length ?w'"
    using lw mw by (simp only: l split: if_splits) (auto simp: TX_WINDOW_def)
  have 5: "(em @ [h]) ! i \<noteq> (em @ [h]) ! j"
    if "i < j" "j < length (em @ [h])" "j \<le> i + 5001" for i j
  proof (cases "j < length em")
    case True
    with that gap [of i j] show ?thesis by (simp add: nth_append)
  next
    case False
    with that have j: "j = length em" by simp
    from that j mw have "length em - length w \<le> i" by auto
    from suffix_nth_mem [OF sw this] that j have "em ! i \<in> set w" by simp
    with new that j show ?thesis by (auto simp: nth_append)
  qed
  from 1 2 3 4 5 show ?thesis
    unfolding windowInv_def by blast
qed

lemma processTransactions_inv:
  assumes "windowInv w em" and "processTransactions w txs = (w', e)"
  shows "windowInv w' (em @ map txHash e)"
  using assms
proof (induction txs arbitrary: w em w' e)
  case Nil
  then show ?case by simp
next
  case (Cons t txs)
  obtain w1 e1 where step: "processTransaction w t = (w1, e1)"
    by (cases "processTransaction w t")
  obtain w2 e2 where rest: "processTransactions w1 txs = (w2, e2)"
    by (cases "processTransactions w1 txs")
  from Cons.prems(2) step rest have res: "w' = w2" "e = e1 @ e2"
    by auto
  from Cons.prems(1) have dw: "distinct w" by (simp add: windowInv_def)
  have "windowInv w1 (em @ map txHash e1)"
  proof (cases "txHash t \<in> set w")
    case True
    with step processTransaction_distinct [OF dw, of t] Cons.prems(1) show ?thesis by simp
  next
    case False
    with step processTransaction_distinct [OF dw, of t] windowInv_step [OF Cons.prems(1) False]
    show ?thesis by (auto split: if_splits)
  qed
  from Cons.IH [OF this rest] res show ?case by simp
qed

lemma eventHashes_append: "eventHashes (xs @ ys) = eventHashes xs @ eventHashes ys"
  by (induction xs rule: eventHashes.induct) simp_all

lemma eventHashes_NewTransaction: "eventHashes (map NewTransaction e) = map txHash e"
  by (induction e) simp_all

lemma processBlock_inv:
  assumes "windowInv (processedTransactions st) em" and "processBlock st b = (st', evs)"
  shows "windowInv (processedTransactions st') (em @ eventHashes evs)"
proof (cases "blockNumber b")
  case None
  with assms show ?thesis by (simp add: processBlock_def)
next
  case (Some number)
  show ?thesis
  proof (cases "blockHash b")
    case None
    with Some assms show ?thesis by (simp add: processBlock_def)
  next
    case hash: (Some bhash)
    show ?thesis
    proof (cases "number \<in> set (processedBlocks st)")
      case True
      with Some hash assms show ?thesis by (simp add: processBlock_def)
    next
      case False
      obtain w1 e1 where run: "processTransactions (processedTransactions st)
          (map (\<lambda>t. t\<lparr>txSource := ''block''\<rparr>) (blockNormalized (blockTransactions b))) = (w1, e1)"
        by (cases "processTransactions (processedTransactions st)
          (map (\<lambda>t. t\<lparr>txSource := ''block''\<rparr>) (blockNormalized (blockTransactions b)))")
      from assms(2) Some hash False run
      have "processedTransactions st' = w1" and "eventHashes evs = map txHash e1"
        by (auto simp: processBlock_def Let_def eventHashes_append eventHashes_NewTransaction)
      with processTransactions_inv [OF assms(1) run] show ?thesis by simp
    qed
  qed
qed

lemma processBlocks_inv:
  assumes "windowInv (processedTransactions st) em" and "processBlocks st bs = (st', evs)"
  shows "windowInv (processedTransactions st') (em @ eventHashes evs)"
  using assms
proof (induction bs arbitrary: st em st' evs)
  case Nil
  then show ?case by simp
next
  case (Cons b bs)
  obtain st1 e1 where step: "processBlock st b = (st1, e1)"
    by (cases "processBlock st b")
  obtain st2 e2 where rest: "processBlocks st1 bs = (st2, e2)"
    by (cases "processBlocks st1 bs")
  from Cons.prems(2) step rest have res: "st' = st2" "evs = e1 @ e2"
    by auto
  from Cons.IH [OF processBlock_inv [OF Cons.prems(1) step] rest] res
  show ?case by (simp add: eventHashes_append)
qed

lemma windowInv_reached: "windowInv (txWindowAfter blocks) (emittedHashes blocks)"
proof -
  have "windowInv (processedTransactions initialReaderState) []"
    by (simp add: windowInv_def initialReaderState_def)
  from processBlocks_inv [OF this, of blocks] show ?thesis
    by (cases "processBlocks initialReaderState blocks")
       (simp add: txWindowAfter_def emittedHashes_def)
qed
text \<open>
  C4. Start from the empty sets and let the reader process any sequence of blocks.
  The set of recent transaction hashes is then duplicate-free, consists of the most
  recently emitted hashes and never holds more than 10000 of them; two emissions of the
  same hash are more than 5001 emissions apart. For the next transaction: one whose hash
  is in the set is not emitted and changes nothing; any other is emitted and its hash
  added, and when this makes the set exceed 10000 entries the oldest 5000 (half the
  window) are removed, in insertion order.
\<close>

theorem tx_window_no_duplicate_emission:
  "distinct (txWindowAfter blocks)
   \<and> suffix (txWindowAfter blocks) (emittedHashes blocks)
   \<and> length (txWindowAfter blocks) \<le> TX_WINDOW
   \<and> (\<forall>i j. i < j \<and> j < length (emittedHashes blocks) \<and> j \<le> i + 5001
          \<longrightarrow> emittedHashes blocks ! i \<noteq> emittedHashes blocks ! j)
   \<and> (\<forall>t. processTransaction (txWindowAfter blocks) t =
          (if txHash t \<in> set (txWindowAfter blocks) then (txWindowAfter blocks, [])
           else (if length (txWindowAfter blocks) \<ge> TX_WINDOW
                 then drop (TX_WINDOW div 2) (txWindowAfter blocks @ [txHash t])
                 else txWindowAfter blocks @ [txHash t], [t])))"
proof -
  have inv: "windowInv (txWindowAfter blocks) (emittedHashes blocks)"
    by (rule windowInv_reached)
  then have "distinct (txWindowAfter blocks)"
    by (simp add: windowInv_def)
  from processTransaction_distinct [OF this] inv show ?thesis
    unfolding windowInv_def by blast
qed

definition exampleTx :: "string \<Rightarrow> BlockTransaction" where
  "exampleTx h = TxObject
     \<lparr>rawHash = h, rawBlockNumber = Some 5, rawBlockHash = Some ''0xb5'',
      rawTransactionIndex = None, rawTo = None, rawFrom = ''0xf0'',
      rawNonce = None, rawGas = None, rawGasPrice = None,
      rawMaxPriorityFeePerGas = None, rawMaxFeePerGas = None,
      rawInput = None, rawValue = None, rawChainId = None\<rparr>"

definition exampleBlocks :: "Block list" where
  "exampleBlocks =
     [\<lparr>blockNumber = Some 5, blockHash = Some ''0xb5'', blockTimestamp = None,
       blockTransactions = [exampleTx ''0xa1'', TxHashOnly ''0xzz'', exampleTx ''0xa2'']\<rparr>,
      \<lparr>blockNumber = Some 6, blockHash = Some ''0xb6'', blockTimestamp = None,
       blockTransactions = [exampleTx ''0xa1'', exampleTx ''0xa3'']\<rparr>]"

lemma exampleBlocks_run:
  "emittedHashes exampleBlocks = [''0xa1'', ''0xa2'', ''0xa3'']"
  by (simp add: emittedHashes_def exampleBlocks_def exampleTx_def initialReaderState_def
      processBlock_def processTransaction_def setAdd_def setDelete_def TX_WINDOW_def
      BLOCK_WINDOW_def normalizeTransaction_def Let_def)

theorem tx_window_no_duplicate_emission_witness:
  "emittedHashes exampleBlocks = [''0xa1'', ''0xa2'', ''0xa3'']
   \<and> (0::nat) < 2 \<and> 2 < length (emittedHashes exampleBlocks) \<and> (2::nat) \<le> 0 + 5001
   \<and> emittedHashes exampleBlocks ! 0 \<noteq> emittedHashes exampleBlocks ! 2
   \<and> distinct (txWindowAfter exampleBlocks)"
proof -
  have len: "(0::nat) < 2 \<and> 2 < length (emittedHashes exampleBlocks) \<and> (2::nat) \<le> 0 + 5001"
    by (simp add: exampleBlocks_run)
  from tx_window_no_duplicate_emission [of exampleBlocks]
  have gap: "\<forall>i j. i < j \<and> j < length (emittedHashes exampleBlocks) \<and> j \<le> i + 5001
          \<longrightarrow> emittedHashes exampleBlocks ! i \<noteq> emittedHashes exampleBlocks ! j"
    and d: "distinct (txWindowAfter exampleBlocks)"
    by blast+
  from gap len have "emittedHashes exampleBlocks ! 0 \<noteq> emittedHashes exampleBlocks ! 2"
    by blast
  with len d exampleBlocks_run show ?thesis by blast
qed

section \<open>TelegramQueue\<close>

text \<open>
  A chat id is a number or a string. An inline keyboard is the rows of its URL buttons
  (text and URL). A message id returned by the chat platform is an integer.
\<close>

datatype ChatId = ChatNumber int | ChatString string

type_synonym InlineKeyboard = "(string \<times> string) list list"

text \<open>
  What the remote API throws: a \<open>GrammyError\<close> with its \<open>error_code\<close>, its
  \<open>description\<close> and \<open>parameters.retry_after\<close> when present, or any other error.
\<close>

datatype TelegramError =
    GrammyError int string "int option"
  | OtherError string

datatype 'a ApiResult = ApiOk 'a | ApiThrows TelegramError

record ErrorAction =
  removeMessage :: bool
  removeUser :: bool
  retrySending :: bool
  retryAfter :: int

definition stringIncludes :: "string \<Rightarrow> string \<Rightarrow> bool" where
  "stringIncludes s part = sublist part s"

definition handleError :: "TelegramError \<Rightarrow> ErrorAction" where
  "handleError err =
     (let res = \<lparr>removeMessage = True, removeUser = False, retrySending = False, retryAfter = 1\<rparr>
      in case err of
           OtherError m \<Rightarrow> res
         | GrammyError errorCode description retry_after \<Rightarrow>
             if errorCode = 429 then
               res\<lparr>retryAfter := (case retry_after of
                                    Some k \<Rightarrow> (if k = 0 then 1 else k)
                                  | None \<Rightarrow> 1),
                   removeMessage := False, removeUser := False, retrySending := True\<rparr>
             else if stringIncludes description ''bot was blocked by the user''
                     \<or> stringIncludes description ''chat not found''
                     \<or> stringIncludes description ''bot was kicked''
                     \<or> stringIncludes description ''user is deactivated''
             then res\<lparr>removeUser := True\<rparr>
             else if stringIncludes description ''message text is invalid''
                     \<or> stringIncludes description ''message to edit not found''
             then res\<lparr>removeUser := False\<rparr>
             else res)"

record SendQueueItem =
  sqChatId :: ChatId
  sqText :: string
  sqButtons :: "InlineKeyboard option"
  sqMessageId :: string

record EditQueueItem =
  eqChatId :: ChatId
  eqMsgId :: int
  eqText :: string
  eqButtons :: "InlineKeyboard option"
  eqEditId :: string

text \<open>
  What a worker does, in order: it calls the remote API, settles the future of an item
  (named by the item's internal id), or sleeps for a number of milliseconds.
\<close>

datatype QueueEvent =
    CallSendMessage ChatId string "InlineKeyboard option"
  | CallEditMessageText ChatId int string "InlineKeyboard option"
  | ResolveSend string int
  | RejectSend string TelegramError
  | ResolveEdit string bool
  | RejectEdit string TelegramError
  | Sleep int

record QueueState =
  sendQueue :: "SendQueueItem list"
  isProcessingSendQueue :: bool
  pendingSendMessages :: "string list"
  editQueue :: "EditQueueItem list"
  isProcessingEditQueue :: bool
  pendingEditMessages :: "string list"

text \<open>
  One iteration of the \<open>while\<close> loop of \<open>processSendQueue\<close>, for a non-empty queue:
  the argument is what \<open>api.sendMessage\<close> does for the item at the head (it returns a
  message with this \<open>message_id\<close>, or it throws).
\<close>

definition sendIteration :: "int ApiResult \<Rightarrow> QueueState \<Rightarrow> QueueState \<times> QueueEvent list" where
  "sendIteration response st =
     (case sendQueue st of
        [] \<Rightarrow> (st, [])
      | item # rest \<Rightarrow>
          (let call = CallSendMessage (sqChatId item) (sqText item) (sqButtons item) in
           case response of
             ApiOk message_id \<Rightarrow>
               (st\<lparr>sendQueue := rest,
                   pendingSendMessages := removeAll (sqMessageId item) (pendingSendMessages st)\<rparr>,
                [call, ResolveSend (sqMessageId item) message_id, Sleep 200])
           | ApiThrows err \<Rightarrow>
               (let action = handleError err in
                if retrySending action then (st, [call, Sleep (retryAfter action * 1000)])
                else if removeMessage action then
                  (st\<lparr>sendQueue := rest,
                      pendingSendMessages := removeAll (sqMessageId item) (pendingSendMessages st)\<rparr>,
                   [call, RejectSend (sqMessageId item) err])
                else (st, [call]))))"

text \<open>
  The loop of \<open>processSendQueue\<close>, driven by the successive answers of the remote API,
  one per iteration. The loop ends when the queue is empty; when the answers run out with
  items left, the worker is still awaiting the API and \<open>isProcessingSendQueue\<close> stays set.
\<close>

fun sendLoop :: "int ApiResult list \<Rightarrow> QueueState \<Rightarrow> QueueState \<times> QueueEvent list" where
  "sendLoop [] st =
     (if sendQueue st = [] then (st\<lparr>isProcessingSendQueue := False\<rparr>, []) else (st, []))"
| "sendLoop (response # responses) st =
     (if sendQueue st = [] then (st\<lparr>isProcessingSendQueue := False\<rparr>, [])
      else
        (let (st1, e1) = sendIteration response st;
             (st2, e2) = sendLoop responses st1
         in (st2, e1 @ e2)))"

definition processSendQueue ::
  "int ApiResult list \<Rightarrow> QueueState \<Rightarrow> QueueState \<times> QueueEvent list" where
  "processSendQueue responses st =
     (if isProcessingSendQueue st then (st, [])
      else sendLoop responses (st\<lparr>isProcessingSendQueue := True\<rparr>))"

definition editIteration :: "unit ApiResult \<Rightarrow> QueueState \<Rightarrow> QueueState \<times> QueueEvent list" where
  "editIteration response st =
     (case editQueue st of
        [] \<Rightarrow> (st, [])
      | item # rest \<Rightarrow>
          (let call = CallEditMessageText (eqChatId item) (eqMsgId item) (eqText item) (eqButtons item) in
           case response of
             ApiOk u \<Rightarrow>
               (st\<lparr>editQueue := rest,
                   pendingEditMessages := removeAll (eqEditId item) (pendingEditMessages st)\<rparr>,
                [call, ResolveEdit (eqEditId item) True, Sleep 200])
           | ApiThrows err \<Rightarrow>
               (let action = handleError err in
                if retrySending action then (st, [call, Sleep (retryAfter action * 1000)])
                else if removeMessage action then
                  (st\<lparr>editQueue := rest,
                      pendingEditMessages := removeAll (eqEditId item) (pendingEditMessages st)\<rparr>,
                   [call, RejectEdit (eqEditId item) err])
                else (st, [call]))))"

text \<open>Whether an event settles the future of the item with this internal id.\<close>

fun settles :: "string \<Rightarrow> QueueEvent \<Rightarrow> bool" where
  "settles mid (ResolveSend i m) = (i = mid)"
| "settles mid (RejectSend i e) = (i = mid)"
| "settles mid (ResolveEdit i b) = (i = mid)"
| "settles mid (RejectEdit i e) = (i = mid)"
| "settles mid _ = False"

subsection \<open>Claims about rate limiting\<close>

text \<open>
  C6. Let the send worker find \<open>item\<close> at the head of its queue and let the remote
  API answer HTTP 429 with \<open>retry_after = k\<close>. Then the queue and the pending futures
  are unchanged (the item stays at the head), no future is settled, and the worker
  sleeps \<open>k\<close> seconds (one second when \<open>k\<close> is 0), which is at least \<open>k\<close> seconds.
  When the next attempt succeeds with message id \<open>m\<close>, the same item is sent again,
  dequeued, and its future resolved with \<open>m\<close>.
\<close>

theorem rate_limited_item_is_retried:
  "sendIteration (ApiThrows (GrammyError 429 description (Some k))) (st\<lparr>sendQueue := item # rest\<rparr>)
     = (st\<lparr>sendQueue := item # rest\<rparr>,
        [CallSendMessage (sqChatId item) (sqText item) (sqButtons item),
         Sleep ((if k = 0 then 1 else k) * 1000)])
   \<and> list_all (\<lambda>e. \<not> settles (sqMessageId item) e)
        (snd (sendIteration (ApiThrows (GrammyError 429 description (Some k)))
               (st\<lparr>sendQueue := item # rest\<rparr>)))
   \<and> k * 1000 \<le> (if k = 0 then 1 else k) * 1000
   \<and> sendLoop [ApiThrows (GrammyError 429 description (Some k)), ApiOk m]
        (st\<lparr>sendQueue := item # rest\<rparr>)
     = (if rest = []
        then st\<lparr>sendQueue := rest,
                 pendingSendMessages := removeAll (sqMessageId item) (pendingSendMessages st),
                 isProcessingSendQueue := False\<rparr>
        else st\<lparr>sendQueue := rest,
                 pendingSendMessages := removeAll (sqMessageId item) (pendingSendMessages st)\<rparr>,
        [CallSendMessage (sqChatId item) (sqText item) (sqButtons item),
         Sleep ((if k = 0 then 1 else k) * 1000),
         CallSendMessage (sqChatId item) (sqText item) (sqButtons item),
         ResolveSend (sqMessageId item) m,
         Sleep 200])"
  by (simp add: sendIteration_def handleError_def Let_def)

section \<open>Trace results and the message renderer\<close>

datatype BlockRef = BlockNumber int | BlockLabel string

text \<open>
  \<open>TracerResult\<close>; the fields carry the prefix \<open>tr\<close>. The token map \<open>interact\<close>
  (address to symbol) is the list of its entries in insertion order, each address
  once, as \<open>Object.keys\<close> enumerates them.
\<close>

record TracerResult =
  trStatus :: "bool option"
  trInteract :: "(string \<times> string) list"
  trLogs :: "nat option"
  trBlockNumber :: BlockRef
  trContractAddress :: "string option"
  trPnl :: string
  trBal :: string
  trChn :: string
  trAmount :: "string option"

record MessageBuilderConfig =
  cfgChain :: string
  cfgExplorer :: string
  cfgChart :: string
  cfgVault :: string
  cfgButtons :: InlineKeyboard

text \<open>
  Characters outside ASCII are their UTF-8 bytes. The literals below are the byte
  sequences of \<open>src/message/types.ts\<close> as the file stores them: there the emoji are
  stored mis-encoded (each is a run of three to six other characters), and these runs are
  what the program sends. The constants keep the names of the glyphs that were meant.
\<close>

definition dquote :: string where
  "dquote = [CHR 0x22]"

definition newline :: string where
  "newline = [CHR 0x0A]"

definition arrowLowerRight :: string where
  "arrowLowerRight =
     [CHR 0xE2, CHR 0x80, CHR 0x9A, CHR 0xC3, CHR 0x9C, CHR 0xC3, CHR 0xB2,
      CHR 0xC3, CHR 0x94, CHR 0xE2, CHR 0x88, CHR 0x8F, CHR 0xC3, CHR 0xA8]"

definition arrowUpperLeft :: string where
  "arrowUpperLeft =
     [CHR 0xE2, CHR 0x80, CHR 0x9A, CHR 0xC3, CHR 0x9C, CHR 0xC3, CHR 0xB1,
      CHR 0xC3, CHR 0x94, CHR 0xE2, CHR 0x88, CHR 0x8F, CHR 0xC3, CHR 0xA8]"

definition moneyBag :: string where
  "moneyBag =
     [CHR 0xEF, CHR 0xA3, CHR 0xBF, CHR 0xC3, CHR 0xBC, CHR 0xC3, CHR 0xAD,
      CHR 0xE2, CHR 0x88, CHR 0x9E]"

definition arrowRight :: string where
  "arrowRight =
     [CHR 0xE2, CHR 0x80, CHR 0x9A, CHR 0xC3, CHR 0xBB, CHR 0xC2, CHR 0xB0,
      CHR 0xC3, CHR 0x94, CHR 0xE2, CHR 0x88, CHR 0x8F, CHR 0xC3, CHR 0xA8]"

definition whiteCircle :: string where
  "whiteCircle =
     [CHR 0xE2, CHR 0x80, CHR 0x9A, CHR 0xC3, CHR 0xB6, CHR 0xE2, CHR 0x84,
      CHR 0xA2, CHR 0xC3, CHR 0x94, CHR 0xE2, CHR 0x88, CHR 0x8F, CHR 0xC3,
      CHR 0xA8]"

definition greenCircle :: string where
  "greenCircle =
     [CHR 0xEF, CHR 0xA3, CHR 0xBF, CHR 0xC3, CHR 0xBC, CHR 0xC3, CHR 0xBC,
      CHR 0xC2, CHR 0xA2]"

definition checkMark :: string where
  "checkMark =
     [CHR 0xE2, CHR 0x80, CHR 0x9A, CHR 0xC3, CHR 0xBA, CHR 0xC3, CHR 0x96]"

definition crossMark :: string where
  "crossMark =
     [CHR 0xE2, CHR 0x80, CHR 0x9A, CHR 0xC3, CHR 0xB9, CHR 0xC3, CHR 0xA5]"

definition curvedArrow :: string where
  "curvedArrow =
     [CHR 0xE2, CHR 0x80, CHR 0x9A, CHR 0xC3, CHR 0xBB, CHR 0xE2, CHR 0x80,
      CHR 0xA2]"

definition rightwardsArrow :: string where
  "rightwardsArrow =
     [CHR 0xE2, CHR 0x80, CHR 0x9A, CHR 0xC3, CHR 0x9C, CHR 0xC3, CHR 0xAD]"

definition sellIcon :: string where
  "sellIcon = ''<b>'' @ whiteCircle @ '' Sell</b>:  ''"

definition buyIcon :: string where
  "buyIcon = ''<b>'' @ greenCircle @ '' Buy</b>:  ''"

definition checkStatus :: "bool option \<Rightarrow> string" where
  "checkStatus status =
     (case status of None \<Rightarrow> [] | Some s \<Rightarrow> (if s then checkMark else crossMark))"

text \<open>\<open>s.slice(0, -n)\<close>: the string without its last \<open>n\<close> characters.\<close>

definition dropLast :: "nat \<Rightarrow> string \<Rightarrow> string" where
  "dropLast n s = take (length s - n) s"

record MessageParams =
  mpInteractions :: string
  mpIcon :: string
  mpFrom :: string
  mpTo :: string
  mpTokenForButton :: "string option"
  mpIsContractAddress :: bool

text \<open>
  One iteration of the loop over the first ten tokens: the text appended to
  \<open>interactions\<close> and the new \<open>tokenForButton\<close>. \<open>baseTokens\<close> is the list of
  \<open>system/base-tokens\<close>, which the sources do not include; it is a parameter.
\<close>

definition interactionEntry ::
  "MessageBuilderConfig \<Rightarrow> string list \<Rightarrow> string \<Rightarrow> string \<times> string
     \<Rightarrow> string \<times> string option \<Rightarrow> string \<times> string option" where
  "interactionEntry config baseTokens maker entry acc =
     (let token = fst entry; symbol = snd entry in
      if symbol \<notin> set baseTokens then
        (fst acc
           @ ''<a href='' @ dquote @ cfgChart config @ token @ ''?maker='' @ maker @ dquote
           @ ''><b>['' @ symbol @ '']</b></a>''
           @ ''<a href='' @ dquote @ cfgExplorer config @ ''token/'' @ token @ dquote
           @ ''><b>['' @ curvedArrow @ '']</b></a> | '',
         Some token)
      else
        (fst acc @ ''<a href='' @ dquote @ cfgChart config @ token @ dquote
           @ ''>['' @ symbol @ '']</a> | '',
         snd acc))"

definition prepareMessageParams ::
  "MessageBuilderConfig \<Rightarrow> string list \<Rightarrow> string \<Rightarrow> TransactionData \<Rightarrow> TracerResult
     \<Rightarrow> string \<Rightarrow> MessageParams" where
  "prepareMessageParams config baseTokens address tx decoded selector =
     (let interact = trInteract decoded;
          icon0 = (if Some address = txTo tx then arrowLowerRight @ '':  ''
                   else arrowUpperLeft @ '':  '');
          sender = txFrom tx;
          recipient = orElse (txTo tx) address;
          tokens = map fst interact;
          (interactions1, tokenForButton) =
            (if length tokens > 0 then
               (let (s, b) = foldl (\<lambda>acc entry. interactionEntry config baseTokens (txFrom tx) entry acc)
                               (''<code>Interact: </code>'', None) (take 10 interact)
                in (dropLast 2 s @ newline, b))
             else ([], None));
          single = (length tokens = 1 \<and> selector = ''0xa9059cbb'');
          icon1 = (if single then
                     (if address = sender then moneyBag @ arrowRight @ '':  ''
                      else arrowRight @ moneyBag @ '':  '')
                   else icon0);
          interactions2 =
            (if single then
               (case trAmount decoded of
                  Some amount \<Rightarrow>
                    (if amount \<noteq> [] then
                       dropLast 1 interactions1 @ rightwardsArrow @ '' '' @ amount @ newline
                     else interactions1)
                | None \<Rightarrow> interactions1)
             else interactions1);
          icon2 = (if length tokens > 1 then
                     (let i = (if txValue tx = 0 then sellIcon else buyIcon)
                      in if trStatus decoded = Some False then buyIcon else i)
                   else icon1);
          isContractAddress =
            (case trContractAddress decoded of
               Some c \<Rightarrow> c \<noteq> [] \<and> recipient = c
             | None \<Rightarrow> False)
      in \<lparr>mpInteractions = interactions2,
          mpIcon = checkStatus (trStatus decoded) @ icon2,
          mpFrom = sender,
          mpTo = recipient,
          mpTokenForButton = tokenForButton,
          mpIsContractAddress = isContractAddress\<rparr>)"

subsection \<open>Claims about the direction label\<close>

text \<open>
  C7, as the code has it. When more than one token was interacted with, the icon is the
  status glyph followed by the direction label, and the label is Buy when the decoded
  status is false; otherwise (status true or unknown) it is Sell when \<open>tx.value\<close> is
  0 and Buy when it is not.
\<close>

theorem direction_label_multiple_tokens:
  "length (trInteract decoded) > 1 \<Longrightarrow>
   mpIcon (prepareMessageParams config baseTokens address tx decoded selector) =
     checkStatus (trStatus decoded)
       @ (if trStatus decoded = Some False then buyIcon
          else if txValue tx = 0 then sellIcon else buyIcon)"
  by (simp add: prepareMessageParams_def Let_def split: prod.splits)

definition exampleConfig :: MessageBuilderConfig where
  "exampleConfig =
     \<lparr>cfgChain = ''ETH'', cfgExplorer = ''https://etherscan.io/'',
      cfgChart = ''https://dexscreener.com/ethereum/'', cfgVault = ''ETH'', cfgButtons = []\<rparr>"

definition exampleSwapTx :: TransactionData where
  "exampleSwapTx =
     \<lparr>txHash = ''0x01'', txBlockNumber = Some 100, txBlockHash = Some ''0xb1'', txIndex = 0,
      txTo = Some ''0x7a250d5630b4cf539739df2c5dacb4c659f2488d'',
      txFrom = ''0x5aaeb6053f3e94c9b9a09f33669435e7ef1beaed'',
      txNonce = 1, txGas = 21000, txGasPrice = None, txMaxPriorityFeePerGas = None,
      txMaxFeePerGas = None, txData = ''0x38ed1739'', txValue = 0, txChainId = 1,
      txSource = ''block''\<rparr>"

definition exampleFailedSwap :: TracerResult where
  "exampleFailedSwap =
     \<lparr>trStatus = Some False,
      trInteract = [(''0x6b175474e89094c44da98b954eedeac495271d0f'', ''DAI''),
                    (''0xc02aaa39b223fe8d0a0e5c4f27ead9083c756cc2'', ''WETH'')],
      trLogs = Some 0, trBlockNumber = BlockNumber 100, trContractAddress = None,
      trPnl = ''0.0'', trBal = ''1.0'', trChn = ''.'', trAmount = None\<rparr>"

text \<open>
  C7 as stated fails: a failed transaction (status false) with two tokens and value 0
  is labelled Buy, not Sell; and with status unknown and value 0 the label is Sell, not
  Buy.
\<close>

theorem direction_label_counterexample:
  "mpIcon (prepareMessageParams exampleConfig [''WETH''] ''0x5aaeb6053f3e94c9b9a09f33669435e7ef1beaed''
            exampleSwapTx exampleFailedSwap ''0x38ed1739'')
     = crossMark @ buyIcon
   \<and> mpIcon (prepareMessageParams exampleConfig [''WETH''] ''0x5aaeb6053f3e94c9b9a09f33669435e7ef1beaed''
            exampleSwapTx (exampleFailedSwap\<lparr>trStatus := None\<rparr>) ''0x38ed1739'')
     = sellIcon
   \<and> buyIcon \<noteq> sellIcon"
  by (simp add: prepareMessageParams_def Let_def exampleSwapTx_def exampleFailedSwap_def
      checkStatus_def buyIcon_def sellIcon_def greenCircle_def whiteCircle_def split: prod.splits)

theorem direction_label_multiple_tokens_witness:
  "length (trInteract exampleFailedSwap) > 1
   \<and> mpIcon (prepareMessageParams exampleConfig [''WETH''] ''0x5aaeb6053f3e94c9b9a09f33669435e7ef1beaed''
            exampleSwapTx exampleFailedSwap ''0x38ed1739'')
     = checkStatus (Some False) @ buyIcon"
proof -
  have h: "length (trInteract exampleFailedSwap) > 1"
    by (simp add: exampleFailedSwap_def)
  from direction_label_multiple_tokens [OF h, of exampleConfig "[''WETH'']"
      "''0x5aaeb6053f3e94c9b9a09f33669435e7ef1beaed''" exampleSwapTx "''0x38ed1739''"] h
  show ?thesis
    by (simp add: exampleFailedSwap_def)
qed

section \<open>JavaScript objects used as maps\<close>

text \<open>
  A plain object with string keys is the list of its own entries in insertion order,
  each key once. The keys in this program are addresses or composite subscriber ids, so
  they are never integer-like (which would change the enumeration order) and never
  names inherited from \<open>Object.prototype\<close>.
\<close>

type_synonym 'v Record = "(string \<times> 'v) list"

definition recordGet :: "'v Record \<Rightarrow> string \<Rightarrow> 'v option" where
  "recordGet r k = map_of r k"

definition recordSet :: "'v Record \<Rightarrow> string \<Rightarrow> 'v \<Rightarrow> 'v Record" where
  "recordSet r k v =
     (if k \<in> set (map fst r) then map (\<lambda>e. if fst e = k then (k, v) else e) r
      else r @ [(k, v)])"

definition recordKeys :: "'v Record \<Rightarrow> string list" where
  "recordKeys r = map fst r"

section \<open>Multicall\<close>

record MulticallResult =
  mcSuccess :: bool
  mcReturnData :: string

text \<open>
  What \<open>client.call\<close> and the decoding of its answer do for a batch of
  (target, callData) pairs: the call or the decoding throws, the answer has no data, or
  it decodes to a list of results.
\<close>

datatype CallOutcome =
    CallRejects
  | CallWithoutData
  | CallDecoded "MulticallResult list"

text \<open>
  The chain and the ABI decoder of the RPC library as the token resolver sees them. A
  decoder returns \<open>None\<close> where \<open>decodeAbiParameters\<close> throws.
\<close>

record Chain =
  chainCall :: "(string \<times> string) list \<Rightarrow> CallOutcome"
  decodeString :: "string \<Rightarrow> string option"
  decodeUint8 :: "string \<Rightarrow> int option"
  decodeAddress :: "string \<Rightarrow> string option"

definition multicall :: "Chain \<Rightarrow> (string \<times> string) list \<Rightarrow> js_error + MulticallResult list" where
  "multicall chain calldata =
     (if length calldata = 0 then Inr []
      else case chainCall chain calldata of
             CallRejects \<Rightarrow> Inl (Error ''call failed'')
           | CallWithoutData \<Rightarrow> Inr []
           | CallDecoded results \<Rightarrow> Inr results)"

section \<open>TokenCache and TokenResolver\<close>

record TokenMetadata =
  tmSymbol :: string
  tmDecimals :: int

text \<open>The table \<open>tokens(address PRIMARY KEY, symbol, decimals)\<close>, keyed by lower-cased address.\<close>

type_synonym TokenCache = "TokenMetadata Record"

definition getToken :: "TokenCache \<Rightarrow> string \<Rightarrow> TokenMetadata option" where
  "getToken cache address = recordGet cache (toLowerCase address)"

definition getTokens :: "TokenCache \<Rightarrow> string list \<Rightarrow> TokenMetadata Record" where
  "getTokens cache addresses =
     foldl (\<lambda>res address.
              case getToken cache address of
                Some token \<Rightarrow> recordSet res (toLowerCase address) token
              | None \<Rightarrow> res)
           [] addresses"

text \<open>\<open>INSERT OR IGNORE\<close>: an address already stored keeps its row.\<close>

definition addToken :: "TokenCache \<Rightarrow> string \<Rightarrow> string \<Rightarrow> int \<Rightarrow> TokenCache" where
  "addToken cache address symbol decimals =
     (if toLowerCase address \<in> set (recordKeys cache) then cache
      else cache @ [(toLowerCase address, \<lparr>tmSymbol = symbol, tmDecimals = decimals\<rparr>)])"

text \<open>
  \<open>String.prototype.trim\<close>: white space and line terminators, as UTF-8 byte
  sequences, are removed from both ends.
\<close>

definition whitespaceTokens :: "string list" where
  "whitespaceTokens =
     [[CHR 0x09], [CHR 0x0A], [CHR 0x0B], [CHR 0x0C], [CHR 0x0D], [CHR 0x20],
      [CHR 0xC2, CHR 0xA0], [CHR 0xE1, CHR 0x9A, CHR 0x80],
      [CHR 0xE2, CHR 0x80, CHR 0x80], [CHR 0xE2, CHR 0x80, CHR 0x81],
      [CHR 0xE2, CHR 0x80, CHR 0x82], [CHR 0xE2, CHR 0x80, CHR 0x83],
      [CHR 0xE2, CHR 0x80, CHR 0x84], [CHR 0xE2, CHR 0x80, CHR 0x85],
      [CHR 0xE2, CHR 0x80, CHR 0x86], [CHR 0xE2, CHR 0x80, CHR 0x87],
      [CHR 0xE2, CHR 0x80, CHR 0x88], [CHR 0xE2, CHR 0x80, CHR 0x89],
      [CHR 0xE2, CHR 0x80, CHR 0x8A], [CHR 0xE2, CHR 0x80, CHR 0xA8],
      [CHR 0xE2, CHR 0x80, CHR 0xA9], [CHR 0xE2, CHR 0x80, CHR 0xAF],
      [CHR 0xE2, CHR 0x81, CHR 0x9F], [CHR 0xE3, CHR 0x80, CHR 0x80],
      [CHR 0xEF, CHR 0xBB, CHR 0xBF]]"

function stripLeading :: "string list \<Rightarrow> string \<Rightarrow> string" where
  "stripLeading tokens s =
     (case find (\<lambda>w. w \<noteq> [] \<and> prefix w s) tokens of
        Some w \<Rightarrow> stripLeading tokens (drop (length w) s)
      | None \<Rightarrow> s)"
  by pat_completeness auto
termination
proof (relation "measure (\<lambda>(tokens, s). length s)")
  show "wf (measure (\<lambda>(tokens, s). length s))" by simp
next
  fix tokens :: "string list" and s w :: string
  assume "find (\<lambda>w. w \<noteq> [] \<and> prefix w s) tokens = Some w"
  then have "w \<noteq> []" and "prefix w s"
    by (auto simp: find_Some_iff)
  then have "length (drop (length w) s) < length s"
    by (auto simp: prefix_def)
  then show "((tokens, drop (length w) s), (tokens, s)) \<in> measure (\<lambda>(tokens, s). length s)"
    by simp
qed

declare stripLeading.simps [simp del]

definition trim :: "string \<Rightarrow> string" where
  "trim s = rev (stripLeading (map rev whitespaceTokens) (rev (stripLeading whitespaceTokens s)))"

definition nthOpt :: "'a list \<Rightarrow> nat \<Rightarrow> 'a option" where
  "nthOpt xs i = (if i < length xs then Some (xs ! i) else None)"

text \<open>
  One iteration of the loop of \<open>fetchTokensFromNetwork\<close> over the addresses: the
  result map after the address at index \<open>i\<close>.
\<close>

definition fetchOne ::
  "Chain \<Rightarrow> MulticallResult list \<Rightarrow> MulticallResult list \<Rightarrow> TokenMetadata Record
     \<Rightarrow> nat \<times> string \<Rightarrow> TokenMetadata Record" where
  "fetchOne chain symbolResults decimalsResults res entry =
     (let i = fst entry; address = snd entry in
      case nthOpt symbolResults i of
        None \<Rightarrow> res
      | Some symbolResult \<Rightarrow>
          if \<not> mcSuccess symbolResult then res
          else
            (case nthOpt decimalsResults i of
               None \<Rightarrow> res
             | Some decimalsResult \<Rightarrow>
                 if \<not> mcSuccess decimalsResult then res
                 else
                   (case decodeString chain (mcReturnData symbolResult) of
                      None \<Rightarrow> res
                    | Some symbol \<Rightarrow>
                        (case decodeUint8 chain (mcReturnData decimalsResult) of
                           None \<Rightarrow> res
                         | Some decimals \<Rightarrow>
                             (let symbolTrimmed = trim symbol in
                              if symbolTrimmed \<noteq> [] \<and> length symbolTrimmed > 0 \<and> decimals > 0
                              then recordSet res address
                                     \<lparr>tmSymbol = symbolTrimmed, tmDecimals = decimals\<rparr>
                              else res)))))"

definition fetchTokensFromNetwork :: "Chain \<Rightarrow> string list \<Rightarrow> TokenMetadata Record" where
  "fetchTokensFromNetwork chain addresses =
     (if length addresses = 0 then []
      else
        (case multicall chain (map (\<lambda>a. (a, ''0x95d89b41'')) addresses) of
           Inl e \<Rightarrow> []
         | Inr symbolResults \<Rightarrow>
             (case multicall chain (map (\<lambda>a. (a, ''0x313ce567'')) addresses) of
                Inl e \<Rightarrow> []
              | Inr decimalsResults \<Rightarrow>
                  foldl (fetchOne chain symbolResults decimalsResults) []
                        (enumerate 0 addresses))))"

type_synonym TokenMap = "string Record"

definition sortTokens :: "string list \<Rightarrow> TokenMap \<Rightarrow> TokenMap" where
  "sortTokens baseTokens tokens =
     (let sorted1 = foldl (\<lambda>sorted address.
                             case recordGet tokens address of
                               Some symbol \<Rightarrow>
                                 (if symbol \<notin> set baseTokens then recordSet sorted address symbol
                                  else sorted)
                             | None \<Rightarrow> sorted)
                          [] (recordKeys tokens)
      in foldl (\<lambda>sorted address.
                  case recordGet tokens address of
                    Some symbol \<Rightarrow>
                      (if symbol \<in> set baseTokens then recordSet sorted address symbol
                       else sorted)
                  | None \<Rightarrow> sorted)
               sorted1 (recordKeys tokens))"

text \<open>The first loop of \<open>resolveWithNetwork\<close>: the result so far and the addresses to fetch.\<close>

definition splitCached ::
  "TokenMetadata Record \<Rightarrow> TokenMap \<times> string list \<Rightarrow> string \<Rightarrow> TokenMap \<times> string list" where
  "splitCached cachedTokens acc address =
     (let lowerAddress = toLowerCase address in
      case recordGet cachedTokens lowerAddress of
        Some token \<Rightarrow> (recordSet (fst acc) lowerAddress (tmSymbol token), snd acc)
      | None \<Rightarrow> (fst acc, snd acc @ [address]))"

text \<open>The second loop: the result and the cache after one fetched address.\<close>

definition storeFetched ::
  "TokenMetadata Record \<Rightarrow> TokenMap \<times> TokenCache \<Rightarrow> string \<Rightarrow> TokenMap \<times> TokenCache" where
  "storeFetched fetched acc address =
     (let lowerAddress = toLowerCase address in
      case recordGet fetched address of
        Some tokenData \<Rightarrow>
          (if tmSymbol tokenData \<noteq> [] \<and> tmDecimals tokenData > 0
           then (recordSet (fst acc) lowerAddress (tmSymbol tokenData),
                 addToken (snd acc) address (tmSymbol tokenData) (tmDecimals tokenData))
           else acc)
      | None \<Rightarrow> acc)"

text \<open>\<open>resolveWithNetwork\<close>: the returned token map and the cache afterwards.\<close>

definition resolveWithNetwork ::
  "string list \<Rightarrow> Chain \<Rightarrow> TokenCache \<Rightarrow> string list \<Rightarrow> TokenMap \<times> TokenCache" where
  "resolveWithNetwork baseTokens chain cache addresses =
     (if length addresses = 0 then ([], cache)
      else
        (let cachedTokens = getTokens cache addresses;
             (result1, toFetch) = foldl (splitCached cachedTokens) ([], []) addresses;
             (result2, cache2) =
               (if length toFetch > 0
                then foldl (storeFetched (fetchTokensFromNetwork chain toFetch))
                       (result1, cache) toFetch
                else (result1, cache))
         in (sortTokens baseTokens result2, cache2)))"

subsection \<open>Claims about the token lookup\<close>

text \<open>
  The caches the resolver can reach: the table starts empty and is written only by
  \<open>resolveWithNetwork\<close>, here called any number of times, each time against some state
  of the chain and some list of addresses.
\<close>

definition cacheAfter :: "string list \<Rightarrow> (Chain \<times> string list) list \<Rightarrow> TokenCache" where
  "cacheAfter baseTokens calls =
     foldl (\<lambda>cache call. snd (resolveWithNetwork baseTokens (fst call) cache (snd call))) [] calls"

definition lookupAfter ::
  "string list \<Rightarrow> (Chain \<times> string list) list \<Rightarrow> Chain \<Rightarrow> string list \<Rightarrow> TokenMap \<times> TokenCache" where
  "lookupAfter baseTokens calls chain addresses =
     resolveWithNetwork baseTokens chain (cacheAfter baseTokens calls) addresses"

definition resolvedSymbol :: "string \<Rightarrow> bool" where
  "resolvedSymbol s = (s \<noteq> [] \<and> (\<exists>raw. s = trim raw))"

definition validToken :: "TokenMetadata \<Rightarrow> bool" where
  "validToken m = (resolvedSymbol (tmSymbol m) \<and> tmDecimals m > 0)"

definition cacheValid :: "TokenMetadata Record \<Rightarrow> bool" where
  "cacheValid cache = list_all (\<lambda>e. validToken (snd e)) cache"

definition entryValid :: "TokenCache \<Rightarrow> string \<times> string \<Rightarrow> bool" where
  "entryValid cache e =
     (resolvedSymbol (snd e) \<and> (\<exists>m. recordGet cache (fst e) = Some m \<and> validToken m))"

lemma recordSet_set: "set (recordSet r k v) \<subseteq> insert (k, v) (set r)"
  by (auto simp: recordSet_def)

lemma recordSet_same_keys:
  "k \<in> set (map fst r) \<Longrightarrow> map fst (recordSet r k v) = map fst r"
  by (induction r) (auto simp: recordSet_def)

lemma recordSet_keys: "fst ` set (recordSet r k v) = insert k (fst ` set r)"
proof (cases "k \<in> set (map fst r)")
  case True
  from recordSet_same_keys [OF True, of v] have "set (map fst (recordSet r k v)) = set (map fst r)"
    by simp
  with True show ?thesis by auto
next
  case False
  then show ?thesis by (simp add: recordSet_def)
qed

lemma recordSet_distinct:
  "distinct (map fst r) \<Longrightarrow> distinct (map fst (recordSet r k v))"
proof (cases "k \<in> set (map fst r)")
  case True
  assume "distinct (map fst r)"
  with recordSet_same_keys [OF True] show ?thesis by simp
next
  case False
  assume "distinct (map fst r)"
  with False show ?thesis by (simp add: recordSet_def)
qed

lemma recordSet_list_all:
  "list_all P r \<Longrightarrow> P (k, v) \<Longrightarrow> list_all P (recordSet r k v)"
  using recordSet_set [of r k v] by (auto simp: list_all_iff)

lemma recordGet_mem: "recordGet r k = Some v \<Longrightarrow> (k, v) \<in> set r"
  by (simp add: recordGet_def map_of_SomeD)

lemma getTokens_from_cache:
  "list_all (\<lambda>e. recordGet cache (fst e) = Some (snd e)) (getTokens cache addresses)"
proof -
  have "list_all (\<lambda>e. recordGet cache (fst e) = Some (snd e)) acc \<Longrightarrow>
        list_all (\<lambda>e. recordGet cache (fst e) = Some (snd e))
          (foldl (\<lambda>res address.
              case getToken cache address of
                Some token \<Rightarrow> recordSet res (toLowerCase address) token
              | None \<Rightarrow> res) acc addresses)" for acc
  proof (induction addresses arbitrary: acc)
    case Nil
    then show ?case by simp
  next
    case (Cons a addresses)
    show ?case
    proof (cases "getToken cache a")
      case None
      with Cons show ?thesis by simp
    next
      case (Some token)
      then have "recordGet cache (toLowerCase a) = Some token"
        by (simp add: getToken_def)
      with Cons.prems have "list_all (\<lambda>e. recordGet cache (fst e) = Some (snd e))
          (recordSet acc (toLowerCase a) token)"
        by (intro recordSet_list_all) simp_all
      from Cons.IH [OF this] Some show ?thesis by simp
    qed
  qed
  then show ?thesis by (simp add: getTokens_def)
qed

lemma cached_lookup_valid:
  assumes "cacheValid cache" and "recordGet (getTokens cache addresses) k = Some token"
  shows "recordGet cache k = Some token \<and> validToken token"
proof -
  from recordGet_mem [OF assms(2)] getTokens_from_cache [of cache addresses]
  have g: "recordGet cache k = Some token"
    by (auto simp: list_all_iff)
  from recordGet_mem [OF g] assms(1) have "validToken token"
    by (auto simp: cacheValid_def list_all_iff)
  with g show ?thesis by simp
qed

lemma splitCached_inv:
  assumes "cacheValid cache"
    and "list_all (entryValid cache) (fst acc)"
    and "distinct (map fst (fst acc))"
    and "set (map fst (fst acc)) \<subseteq> toLowerCase ` A"
    and "set addresses \<subseteq> A"
  shows "list_all (entryValid cache) (fst (foldl (splitCached (getTokens cache as)) acc addresses))
       \<and> distinct (map fst (fst (foldl (splitCached (getTokens cache as)) acc addresses)))
       \<and> set (map fst (fst (foldl (splitCached (getTokens cache as)) acc addresses)))
            \<subseteq> toLowerCase ` A"
  using assms(2-5)
proof (induction addresses arbitrary: acc)
  case Nil
  then show ?case by simp
next
  case (Cons a addresses)
  let ?acc' = "splitCached (getTokens cache as) acc a"
  have "list_all (entryValid cache) (fst ?acc') \<and> distinct (map fst (fst ?acc'))
        \<and> set (map fst (fst ?acc')) \<subseteq> toLowerCase ` A"
  proof (cases "recordGet (getTokens cache as) (toLowerCase a)")
    case None
    with Cons.prems show ?thesis by (simp add: splitCached_def Let_def)
  next
    case (Some token)
    from cached_lookup_valid [OF assms(1) Some]
    have "entryValid cache (toLowerCase a, tmSymbol token)"
      by (auto simp: entryValid_def validToken_def)
    with Cons.prems Some show ?thesis
      by (auto simp: splitCached_def Let_def recordSet_keys
               intro: recordSet_list_all recordSet_distinct)
  qed
  with Cons.IH [of ?acc'] Cons.prems(4) show ?case by simp
qed

lemma fetchOne_valid:
  "list_all (\<lambda>e. validToken (snd e)) res \<Longrightarrow>
   list_all (\<lambda>e. validToken (snd e)) (fetchOne chain srs drs res entry)"
  by (auto simp: fetchOne_def Let_def validToken_def resolvedSymbol_def
           split: option.splits intro!: recordSet_list_all)

lemma foldl_fetchOne_valid:
  "list_all (\<lambda>e. validToken (snd e)) res \<Longrightarrow>
   list_all (\<lambda>e. validToken (snd e)) (foldl (fetchOne chain srs drs) res entries)"
  by (induction entries arbitrary: res) (simp_all add: fetchOne_valid)

lemma fetchTokensFromNetwork_valid:
  "list_all (\<lambda>e. validToken (snd e)) (fetchTokensFromNetwork chain addresses)"
  by (auto simp: fetchTokensFromNetwork_def foldl_fetchOne_valid split: sum.splits)

lemma addToken_lookup:
  "recordGet cache k = Some m \<Longrightarrow> recordGet (addToken cache a s d) k = Some m"
  by (simp add: addToken_def recordGet_def)

lemma addToken_present:
  "\<exists>m. recordGet (addToken cache a s d) (toLowerCase a) = Some m"
proof (cases "toLowerCase a \<in> set (recordKeys cache)")
  case True
  then have "map_of cache (toLowerCase a) \<noteq> None"
    by (simp add: recordKeys_def map_of_eq_None_iff)
  with True show ?thesis by (auto simp: addToken_def recordGet_def)
next
  case False
  then have "map_of cache (toLowerCase a) = None"
    by (simp add: recordKeys_def map_of_eq_None_iff)
  with False show ?thesis
    by (simp add: addToken_def recordGet_def map_add_def)
qed

lemma addToken_valid:
  "cacheValid cache \<Longrightarrow> validToken \<lparr>tmSymbol = s, tmDecimals = d\<rparr> \<Longrightarrow>
   cacheValid (addToken cache a s d)"
  by (simp add: addToken_def cacheValid_def)

lemma cacheValid_lookup:
  "cacheValid cache \<Longrightarrow> recordGet cache k = Some m \<Longrightarrow> validToken m"
  using recordGet_mem [of cache k m] by (auto simp: cacheValid_def list_all_iff)

lemma entryValid_addToken:
  "entryValid cache e \<Longrightarrow> entryValid (addToken cache a s d) e"
  by (auto simp: entryValid_def dest: addToken_lookup)

lemma storeFetched_inv:
  assumes fv: "list_all (\<lambda>e. validToken (snd e)) fetched"
    and "cacheValid (snd acc)"
    and "list_all (entryValid (snd acc)) (fst acc)"
    and "distinct (map fst (fst acc))"
    and "fst ` set (fst acc) \<subseteq> toLowerCase ` A"
    and "set addresses \<subseteq> A"
  shows "cacheValid (snd (foldl (storeFetched fetched) acc addresses))
       \<and> list_all (entryValid (snd (foldl (storeFetched fetched) acc addresses)))
            (fst (foldl (storeFetched fetched) acc addresses))
       \<and> distinct (map fst (fst (foldl (storeFetched fetched) acc addresses)))
       \<and> fst ` set (fst (foldl (storeFetched fetched) acc addresses)) \<subseteq> toLowerCase ` A"
  using assms(2-6)
proof (induction addresses arbitrary: acc)
  case Nil
  then show ?case by simp
next
  case (Cons a addresses)
  let ?acc' = "storeFetched fetched acc a"
  have step: "cacheValid (snd ?acc') \<and> list_all (entryValid (snd ?acc')) (fst ?acc')
        \<and> distinct (map fst (fst ?acc')) \<and> fst ` set (fst ?acc') \<subseteq> toLowerCase ` A"
  proof (cases "recordGet fetched a")
    case None
    with Cons.prems show ?thesis by (simp add: storeFetched_def Let_def)
  next
    case (Some td)
    show ?thesis
    proof (cases "tmSymbol td \<noteq> [] \<and> tmDecimals td > 0")
      case False
      with Some Cons.prems show ?thesis by (auto simp: storeFetched_def Let_def)
    next
      case True
      let ?c = "addToken (snd acc) a (tmSymbol td) (tmDecimals td)"
      let ?r = "recordSet (fst acc) (toLowerCase a) (tmSymbol td)"
      from Some True have eq: "?acc' = (?r, ?c)"
        by (simp add: storeFetched_def Let_def)
      from recordGet_mem [OF Some] fv have vt: "validToken td"
        by (auto simp: list_all_iff)
      then have "validToken \<lparr>tmSymbol = tmSymbol td, tmDecimals = tmDecimals td\<rparr>"
        by (simp add: validToken_def)
      from addToken_valid [OF Cons.prems(1) this] have cv: "cacheValid ?c" .
      from addToken_present [of "snd acc" a "tmSymbol td" "tmDecimals td"]
      obtain m where m: "recordGet ?c (toLowerCase a) = Some m" by blast
      from cacheValid_lookup [OF cv m] m vt
      have new: "entryValid ?c (toLowerCase a, tmSymbol td)"
        by (auto simp: entryValid_def validToken_def)
      from Cons.prems(2) have old: "list_all (entryValid ?c) (fst acc)"
        by (auto simp: list_all_iff intro: entryValid_addToken)
      from recordSet_list_all [OF old new] have la: "list_all (entryValid ?c) ?r" .
      from Cons.prems(3) have d: "distinct (map fst ?r)"
        by (rule recordSet_distinct)
      from Cons.prems(4,5) have k: "fst ` set ?r \<subseteq> toLowerCase ` A"
        by (auto simp: recordSet_keys)
      from cv la d k show ?thesis by (simp add: eq)
    qed
  qed
  from Cons.prems(5) have "set addresses \<subseteq> A" by simp
  with Cons.IH [of ?acc'] step show ?case by simp
qed

lemma sortTokens_pass:
  assumes "distinct (map fst tokens)"
  shows "set es \<subseteq> set tokens \<Longrightarrow> distinct (map fst es) \<Longrightarrow>
     fst ` set acc \<inter> fst ` set es = {} \<Longrightarrow>
     foldl (\<lambda>sorted address.
              case recordGet tokens address of
                Some symbol \<Rightarrow> (if Q symbol then recordSet sorted address symbol else sorted)
              | None \<Rightarrow> sorted)
           acc (map fst es)
       = acc @ filter (\<lambda>e. Q (snd e)) es"
proof (induction es arbitrary: acc)
  case Nil
  then show ?case by simp
next
  case (Cons e es)
  obtain k s where e: "e = (k, s)" by (cases e)
  from Cons.prems(1) e have "(k, s) \<in> set tokens" by simp
  with assms have get: "recordGet tokens k = Some s"
    by (simp add: recordGet_def)
  from Cons.prems(3) e have knew: "k \<notin> set (map fst acc)" by auto
  show ?case
  proof (cases "Q s")
    case True
    from knew have rs: "recordSet acc k s = acc @ [(k, s)]"
      by (simp add: recordSet_def)
    from Cons.prems e have "fst ` set (acc @ [(k, s)]) \<inter> fst ` set es = {}"
      by auto
    with Cons.IH [of "acc @ [(k, s)]"] Cons.prems e get True rs show ?thesis
      by simp
  next
    case False
    from Cons.prems e have "fst ` set acc \<inter> fst ` set es = {}"
      by auto
    with Cons.IH [of acc] Cons.prems e get False show ?thesis
      by simp
  qed
qed

lemma sortTokens_distinct:
  assumes "distinct (map fst tokens)"
  shows "sortTokens baseTokens tokens =
     filter (\<lambda>e. snd e \<notin> set baseTokens) tokens @ filter (\<lambda>e. snd e \<in> set baseTokens) tokens"
proof -
  have p1: "foldl (\<lambda>sorted address.
              case recordGet tokens address of
                Some symbol \<Rightarrow> (if symbol \<notin> set baseTokens then recordSet sorted address symbol
                                else sorted)
              | None \<Rightarrow> sorted) [] (map fst tokens)
        = filter (\<lambda>e. snd e \<notin> set baseTokens) tokens"
    using sortTokens_pass [OF assms, of tokens "[]" "\<lambda>s. s \<notin> set baseTokens"] assms
    by simp
  have disj: "fst ` set (filter (\<lambda>e. snd e \<notin> set baseTokens) tokens)
                \<inter> fst ` set (filter (\<lambda>e. snd e \<in> set baseTokens) tokens) = {}"
    using assms by (auto dest: eq_key_imp_eq_value)
  have d2: "distinct (map fst (filter (\<lambda>e. snd e \<in> set baseTokens) tokens))"
    using assms by (simp add: distinct_map_filter)
  have keysT: "\<And>k. recordGet tokens k = None \<or> (\<exists>s. recordGet tokens k = Some s)"
    by auto
  have p2: "foldl (\<lambda>sorted address.
              case recordGet tokens address of
                Some symbol \<Rightarrow> (if symbol \<in> set baseTokens then recordSet sorted address symbol
                                else sorted)
              | None \<Rightarrow> sorted) acc (map fst es)
        = foldl (\<lambda>sorted address.
              case recordGet tokens address of
                Some symbol \<Rightarrow> (if symbol \<in> set baseTokens then recordSet sorted address symbol
                                else sorted)
              | None \<Rightarrow> sorted) acc (map fst (filter (\<lambda>e. snd e \<in> set baseTokens) es))"
    if "set es \<subseteq> set tokens" for es acc
    using that
  proof (induction es arbitrary: acc)
    case Nil
    then show ?case by simp
  next
    case (Cons e es)
    obtain k s where e: "e = (k, s)" by (cases e)
    from Cons.prems e assms have "recordGet tokens k = Some s"
      by (simp add: recordGet_def)
    with Cons e show ?case by simp
  qed
  have "sortTokens baseTokens tokens =
      foldl (\<lambda>sorted address.
              case recordGet tokens address of
                Some symbol \<Rightarrow> (if symbol \<in> set baseTokens then recordSet sorted address symbol
                                else sorted)
              | None \<Rightarrow> sorted)
        (filter (\<lambda>e. snd e \<notin> set baseTokens) tokens)
        (map fst (filter (\<lambda>e. snd e \<in> set baseTokens) tokens))"
    using p1 p2 [of tokens] by (simp add: sortTokens_def recordKeys_def Let_def)
  also have "\<dots> = filter (\<lambda>e. snd e \<notin> set baseTokens) tokens
        @ filter (\<lambda>e. snd e \<in> set baseTokens) (filter (\<lambda>e. snd e \<in> set baseTokens) tokens)"
    using sortTokens_pass [OF assms, of "filter (\<lambda>e. snd e \<in> set baseTokens) tokens"
        "filter (\<lambda>e. snd e \<notin> set baseTokens) tokens" "\<lambda>s. s \<in> set baseTokens"] disj d2
    by simp
  finally show ?thesis by simp
qed

lemma partition_stable:
  "filter P (filter P xs @ filter (\<lambda>x. \<not> P x) xs) = filter P xs"
  "filter (\<lambda>x. \<not> P x) (filter P xs @ filter (\<lambda>x. \<not> P x) xs) = filter (\<lambda>x. \<not> P x) xs"
  by (induction xs) auto

lemma resolveWithNetwork_inv:
  assumes "cacheValid cache"
  shows "cacheValid (snd (resolveWithNetwork baseTokens chain cache addresses))
    \<and> list_all (entryValid (snd (resolveWithNetwork baseTokens chain cache addresses)))
         (fst (resolveWithNetwork baseTokens chain cache addresses))
    \<and> fst (resolveWithNetwork baseTokens chain cache addresses)
        = filter (\<lambda>e. snd e \<notin> set baseTokens) (fst (resolveWithNetwork baseTokens chain cache addresses))
          @ filter (\<lambda>e. \<not> snd e \<notin> set baseTokens) (fst (resolveWithNetwork baseTokens chain cache addresses))
    \<and> distinct (map fst (fst (resolveWithNetwork baseTokens chain cache addresses)))
    \<and> fst ` set (fst (resolveWithNetwork baseTokens chain cache addresses))
         \<subseteq> toLowerCase ` set addresses"
proof (cases "length addresses = 0")
  case True
  with assms show ?thesis by (simp add: resolveWithNetwork_def)
next
  case False
  define s1 where "s1 = foldl (splitCached (getTokens cache addresses)) ([], []) addresses"
  define toFetch where "toFetch = snd s1"
  define s2 where "s2 = (if length toFetch > 0
      then foldl (storeFetched (fetchTokensFromNetwork chain toFetch)) (fst s1, cache) toFetch
      else (fst s1, cache))"
  have res: "resolveWithNetwork baseTokens chain cache addresses
      = (sortTokens baseTokens (fst s2), snd s2)"
    using False
    by (simp add: resolveWithNetwork_def Let_def s1_def s2_def toFetch_def split: prod.splits)
  from splitCached_inv [OF assms, of "([], [])" "set addresses" addresses addresses]
  have i1: "list_all (entryValid cache) (fst s1)" "distinct (map fst (fst s1))"
    "fst ` set (fst s1) \<subseteq> toLowerCase ` set addresses"
    by (simp_all add: s1_def)
  have sub: "set toFetch \<subseteq> UNIV" by simp
  have i2: "cacheValid (snd s2) \<and> list_all (entryValid (snd s2)) (fst s2)
      \<and> distinct (map fst (fst s2)) \<and> fst ` set (fst s2) \<subseteq> toLowerCase ` set addresses"
  proof (cases "length toFetch > 0")
    case False
    with assms i1 show ?thesis by (simp add: s2_def)
  next
    case True
    have tf: "set toFetch \<subseteq> set addresses"
    proof -
      have "set (snd (foldl (splitCached ct) acc as)) \<subseteq> set (snd acc) \<union> set as" for ct acc as
        by (induction as arbitrary: acc)
           (auto simp: splitCached_def Let_def split: option.splits, fastforce+)
      from this [of "getTokens cache addresses" "([], [])" addresses]
      show ?thesis by (simp add: toFetch_def s1_def)
    qed
    from storeFetched_inv [OF fetchTokensFromNetwork_valid, of "(fst s1, cache)" "set addresses"
        toFetch chain toFetch] assms i1 tf True
    show ?thesis by (simp add: s2_def)
  qed
  then have d: "distinct (map fst (fst s2))" by simp
  from sortTokens_distinct [OF d, of baseTokens]
  have st: "sortTokens baseTokens (fst s2) =
     filter (\<lambda>e. snd e \<notin> set baseTokens) (fst s2) @ filter (\<lambda>e. \<not> snd e \<notin> set baseTokens) (fst s2)"
    by simp
  have set_st: "set (sortTokens baseTokens (fst s2)) = set (fst s2)"
    unfolding st by auto
  have dist_st: "distinct (map fst (sortTokens baseTokens (fst s2)))"
    unfolding st using d by (auto simp: distinct_map_filter dest: eq_key_imp_eq_value)
  have ord: "sortTokens baseTokens (fst s2)
      = filter (\<lambda>e. snd e \<notin> set baseTokens) (sortTokens baseTokens (fst s2))
        @ filter (\<lambda>e. \<not> snd e \<notin> set baseTokens) (sortTokens baseTokens (fst s2))"
    using partition_stable [of "\<lambda>e. snd e \<notin> set baseTokens" "fst s2"] st by metis
  from i2 set_st have la: "list_all (entryValid (snd s2)) (sortTokens baseTokens (fst s2))"
    by (simp add: list_all_iff)
  from i2 la ord dist_st set_st show ?thesis
    unfolding res fst_conv snd_conv by (metis (no_types, lifting))
qed

lemma cacheAfter_valid: "cacheValid (cacheAfter baseTokens calls)"
proof (induction calls rule: rev_induct)
  case Nil
  then show ?case by (simp add: cacheAfter_def cacheValid_def)
next
  case (snoc call calls)
  from resolveWithNetwork_inv [OF snoc, of baseTokens "fst call" "snd call"]
  show ?case by (simp add: cacheAfter_def)
qed

text \<open>
  C9. Whatever calls went before (from the empty cache), whatever the chain answers and
  whatever the input address list: every entry the lookup returns has a symbol that is
  non-empty and is the trimmed form of a decoded symbol, and its address is stored in
  the cache with such a symbol and with decimals greater than 0; the returned map lists
  each address once, every address is the lower-cased form of an input address, and all
  entries whose symbol is in the base-token set come after all entries whose symbol is
  not.
\<close>

theorem lookup_only_resolved_base_tokens_last:
  "list_all (\<lambda>e. snd e \<noteq> [] \<and> (\<exists>raw. snd e = trim raw)
               \<and> (\<exists>m. recordGet (snd (lookupAfter baseTokens calls chain addresses)) (fst e) = Some m
                       \<and> tmSymbol m \<noteq> [] \<and> tmDecimals m > 0))
            (fst (lookupAfter baseTokens calls chain addresses))
   \<and> fst (lookupAfter baseTokens calls chain addresses)
       = filter (\<lambda>e. snd e \<notin> set baseTokens) (fst (lookupAfter baseTokens calls chain addresses))
         @ filter (\<lambda>e. snd e \<in> set baseTokens) (fst (lookupAfter baseTokens calls chain addresses))
   \<and> distinct (map fst (fst (lookupAfter baseTokens calls chain addresses)))
   \<and> fst ` set (fst (lookupAfter baseTokens calls chain addresses)) \<subseteq> toLowerCase ` set addresses"
proof -
  let ?r = "lookupAfter baseTokens calls chain addresses"
  from resolveWithNetwork_inv [OF cacheAfter_valid [of baseTokens calls], of baseTokens chain addresses]
  have la: "list_all (entryValid (snd ?r)) (fst ?r)"
    and ord: "fst ?r = filter (\<lambda>e. snd e \<notin> set baseTokens) (fst ?r)
                @ filter (\<lambda>e. \<not> snd e \<notin> set baseTokens) (fst ?r)"
    and d: "distinct (map fst (fst ?r))"
    and k: "fst ` set (fst ?r) \<subseteq> toLowerCase ` set addresses"
    unfolding lookupAfter_def by blast+
  from la have 1: "list_all (\<lambda>e. snd e \<noteq> [] \<and> (\<exists>raw. snd e = trim raw)
               \<and> (\<exists>m. recordGet (snd ?r) (fst e) = Some m
                       \<and> tmSymbol m \<noteq> [] \<and> tmDecimals m > 0)) (fst ?r)"
    by (auto simp: list_all_iff entryValid_def validToken_def resolvedSymbol_def)
  from ord have 2: "fst ?r = filter (\<lambda>e. snd e \<notin> set baseTokens) (fst ?r)
                @ filter (\<lambda>e. snd e \<in> set baseTokens) (fst ?r)"
    by simp
  from 1 2 d k show ?thesis by blast
qed

section \<open>JavaScript numbers\<close>

text \<open>
  A finite Number is the rational it denotes. \<open>toDouble q\<close> is the double nearest to
  \<open>q\<close> (ties to even, subnormals included), for \<open>q\<close> below the overflow threshold; it is
  what \<open>Number(n)\<close> gives for a bigint \<open>n\<close> and what one arithmetic operation gives for
  its exact result.
\<close>

function bitLength :: "nat \<Rightarrow> nat" where
  "bitLength n = (if n = 0 then 0 else Suc (bitLength (n div 2)))"
  by pat_completeness auto
termination
  by (relation "measure (\<lambda>n. n)") auto

declare bitLength.simps [simp del]

definition pow2 :: "int \<Rightarrow> rat" where
  "pow2 e = (if e \<ge> 0 then 2 ^ nat e else 1 / 2 ^ nat (- e))"

text \<open>For positive \<open>q\<close>: the integer \<open>k\<close> with \<open>2^k \<le> q < 2^(k+1)\<close>.\<close>

definition floorLog2 :: "rat \<Rightarrow> int" where
  "floorLog2 q =
     (let a = fst (quotient_of q); b = snd (quotient_of q);
          k = int (bitLength (nat a)) - int (bitLength (nat b))
      in if pow2 k \<le> q then k else k - 1)"

definition roundHalfEven :: "rat \<Rightarrow> int" where
  "roundHalfEven q =
     (let f = \<lfloor>q\<rfloor>; d = q - of_int f in
      if d < 1 / 2 then f
      else if d > 1 / 2 then f + 1
      else if even f then f else f + 1)"

definition toDouble :: "rat \<Rightarrow> rat" where
  "toDouble q =
     (if q = 0 then 0
      else
        (let e = max (floorLog2 \<bar>q\<bar> - 52) (- 1074);
             m = roundHalfEven (\<bar>q\<bar> / pow2 e)
         in sgn q * of_int m * pow2 e))"

text \<open>Whether the exact result rounds to a finite double (below \<open>2^1024 - 2^970\<close>).\<close>

definition finiteDouble :: "rat \<Rightarrow> bool" where
  "finiteDouble q = (\<bar>q\<bar> < 2 ^ 1024 - 2 ^ 970)"

fun padLeft :: "nat \<Rightarrow> char \<Rightarrow> string \<Rightarrow> string" where
  "padLeft n c s = replicate (n - length s) c @ s"

text \<open>
  \<open>x.toFixed(2)\<close> for \<open>0 \<le> x\<close>: below \<open>10^21\<close> the digits of the integer \<open>n\<close>
  nearest to \<open>100 x\<close> (the larger on a tie); from \<open>10^21\<close> on it is \<open>String(x)\<close>, in
  exponent notation, which is left to the parameter \<open>largeToString\<close>.
\<close>

definition toFixed2 :: "(rat \<Rightarrow> string) \<Rightarrow> rat \<Rightarrow> string" where
  "toFixed2 largeToString x =
     (if x \<ge> 10 ^ 21 then largeToString x
      else
        (let n = nat \<lfloor>x * 100 + 1 / 2\<rfloor>
         in natToString (n div 100) @ ''.'' @ padLeft 2 (CHR ''0'') (natToString (n mod 100))))"

definition hexDigitValue :: "char \<Rightarrow> nat option" where
  "hexDigitValue c =
     map_of (zip ''0123456789abcdefABCDEF''
               [0, 1, 2, 3, 4, 5, 6, 7, 8, 9, 10, 11, 12, 13, 14, 15, 10, 11, 12, 13, 14, 15]) c"

text \<open>The number a string of hexadecimal digits denotes; \<open>None\<close> where a character is not a digit.\<close>

fun hexToNat :: "nat \<Rightarrow> string \<Rightarrow> nat option" where
  "hexToNat acc [] = Some acc"
| "hexToNat acc (c # cs) =
     (case hexDigitValue c of
        None \<Rightarrow> None
      | Some d \<Rightarrow> hexToNat (16 * acc + d) cs)"

text \<open>
  \<open>_decodeTransferAmount\<close>. The amount is the 32-byte word at characters 74 to 137;
  decoding it throws on a character that is not a hexadecimal digit, and
  \<open>BigInt(10 ** decimals)\<close> throws when the power is not an integer or not finite; every
  exception ends in \<open>return null\<close>. \<open>10 ** decimals\<close> is taken as the double nearest to
  the power.
\<close>

definition decodeTransferAmountWith :: "(rat \<Rightarrow> string) \<Rightarrow> string \<Rightarrow> int \<Rightarrow> string option" where
  "decodeTransferAmountWith largeToString data decimals =
     (if prefix ''0xa9059cbb'' data \<and> length data \<ge> 138 then
        (case hexToNat 0 (jsSlice 74 138 data) of
           None \<Rightarrow> None
         | Some amount \<Rightarrow>
             if decimals < 0 \<or> \<not> finiteDouble (10 ^ nat decimals) then None
             else
               (let power = toDouble (10 ^ nat decimals);
                    divisor = \<lfloor>power\<rfloor>;
                    integerPart = int amount div divisor;
                    fractionalPart = int amount mod divisor;
                    res = toDouble (toDouble (of_int integerPart)
                                    + toDouble (toDouble (of_int fractionalPart) / power))
                in Some (toFixed2 largeToString res)))
      else None)"

definition decodeTransferAmount ::
  "(rat \<Rightarrow> string) \<Rightarrow> TokenCache \<Rightarrow> string \<Rightarrow> string \<Rightarrow> string option" where
  "decodeTransferAmount largeToString cache data tokenAddress =
     (case getToken cache tokenAddress of
        None \<Rightarrow> None
      | Some tokenData \<Rightarrow> decodeTransferAmountWith largeToString data (tmDecimals tokenData))"

section \<open>OptimizedTracer: fast decoding\<close>

record BalanceData =
  balBal :: string
  balChn :: string

text \<open>
  What the tracer needs from outside: the base-token list, the chain, the text of the
  watched address's balance in ether rounded to two digits (\<open>None\<close> where
  \<open>getBalance\<close> throws), and \<open>String(x)\<close> for large numbers.
\<close>

record TracerEnv =
  teBaseTokens :: "string list"
  teChain :: Chain
  teRoundedBalance :: "string \<Rightarrow> string option"
  teLargeToString :: "rat \<Rightarrow> string"

definition getCurrentBalance :: "TracerEnv \<Rightarrow> string \<Rightarrow> BalanceData" where
  "getCurrentBalance env address =
     (case teRoundedBalance env address of
        None \<Rightarrow> \<lparr>balBal = ''0.0'', balChn = '' ''\<rparr>
      | Some bal \<Rightarrow>
          \<lparr>balBal = (if CHR ''.'' \<in> set bal then bal else bal @ ''.0''), balChn = '' ''\<rparr>)"

definition pairToken :: "Chain \<Rightarrow> string list \<Rightarrow> MulticallResult \<Rightarrow> string list" where
  "pairToken chain tokens res =
     (if mcSuccess res then
        (case decodeAddress chain (mcReturnData res) of
           None \<Rightarrow> tokens
         | Some tokenAddress \<Rightarrow>
             (let normalizedAddress = toLowerCase tokenAddress in
              if normalizedAddress \<notin> set tokens then tokens @ [normalizedAddress] else tokens))
      else tokens)"

definition extractAddressesFromPairs :: "Chain \<Rightarrow> string list \<Rightarrow> string list" where
  "extractAddressesFromPairs chain addresses =
     (if length addresses = 0 then []
      else
        (case multicall chain
                (concat (map (\<lambda>a. [(a, ''0x0dfe1681''), (a, ''0xd21220a7'')]) addresses)) of
           Inl e \<Rightarrow> []
         | Inr results \<Rightarrow> foldl (pairToken chain) [] results))"

text \<open>
  \<open>decodeFast\<close>: the trace result and the token cache afterwards. Nothing inside its
  \<open>try\<close> block throws in this model, so the fallback of its \<open>catch\<close> is not reached.
\<close>

definition decodeFast ::
  "TracerEnv \<Rightarrow> TokenCache \<Rightarrow> TransactionData \<Rightarrow> string \<Rightarrow> TracerResult \<times> TokenCache" where
  "decodeFast env cache tx watchAddress =
     (let extracted = extractAddressesFromCalldata (txData tx);
          target = (case txTo tx of
                      None \<Rightarrow> []
                    | Some t \<Rightarrow>
                        if t \<noteq> [] \<and> isAddress t then
                          (case getAddress t of Inr a \<Rightarrow> [toLowerCase a] | Inl e \<Rightarrow> [])
                        else []);
          addresses = extracted @ target;
          tokensFromPairs = extractAddressesFromPairs (teChain env) addresses;
          uniqueAddresses = newSet (addresses @ tokensFromPairs);
          balanceData = getCurrentBalance env watchAddress;
          (tokens, cache2) = resolveWithNetwork (teBaseTokens env) (teChain env) cache uniqueAddresses;
          amount = (if length (recordKeys tokens) = 1 \<and> prefix ''0xa9059cbb'' (txData tx)
                    then decodeTransferAmount (teLargeToString env) cache2 (txData tx)
                           (hd (recordKeys tokens))
                    else None)
      in (\<lparr>trStatus = None,
           trInteract = tokens,
           trLogs = None,
           trBlockNumber = (case truthyInt (txBlockNumber tx) of
                              Some n \<Rightarrow> BlockNumber n
                            | None \<Rightarrow> BlockLabel ''mempool''),
           trContractAddress = None,
           trPnl = ''0.0'',
           trBal = balBal balanceData,
           trChn = balChn balanceData,
           trAmount = amount\<rparr>,
          cache2))"

section \<open>Watchlist\<close>

record WatchlistEntry =
  weName :: string
  tx_in :: bool
  tx_out :: bool

record WatchlistRow =
  rowAddress :: string
  rowName :: string
  rowChatId :: int
  rowBotId :: string

text \<open>
  The loop of \<open>Sql.updateWatchlist\<close> over the rows the query returned: the new
  watchlist, address to subscriber id to entry.
\<close>

definition addWatchlistRow ::
  "WatchlistEntry Record Record \<Rightarrow> WatchlistRow \<Rightarrow> WatchlistEntry Record Record" where
  "addWatchlistRow newWatchlist row =
     (let address = toLowerCase (rowAddress row);
          w1 = (case recordGet newWatchlist address of
                  None \<Rightarrow> recordSet newWatchlist address []
                | Some entries \<Rightarrow> newWatchlist);
          userId = bigintToString (rowChatId row) @ ''@'' @ rowBotId row
      in recordSet w1 address
           (recordSet (orElse (recordGet w1 address) []) userId
              \<lparr>weName = rowName row, tx_in = False, tx_out = True\<rparr>))"

definition updateWatchlist :: "WatchlistRow list \<Rightarrow> WatchlistEntry Record Record" where
  "updateWatchlist rows = foldl addWatchlistRow [] rows"

section \<open>TransactionProcessor\<close>

text \<open>\<open>s.split(c)\<close> for a one-character separator.\<close>

fun splitOn :: "char \<Rightarrow> string \<Rightarrow> string list" where
  "splitOn c [] = [[]]"
| "splitOn c (x # xs) =
     (if x = c then [] # splitOn c xs
      else (case splitOn c xs of
              p # ps \<Rightarrow> (x # p) # ps
            | [] \<Rightarrow> [[x]]))"

text \<open>
  \<open>s.replace(pattern, replacement)\<close> for a string pattern: the first occurrence is
  replaced, and in the replacement \<open>$$\<close> stands for a dollar sign, \<open>$&\<close> for the match,
  and a dollar sign followed by a backquote or a quote for the text before or after it.
\<close>

fun findSplit :: "string \<Rightarrow> string \<Rightarrow> string \<Rightarrow> (string \<times> string) option" where
  "findSplit pat acc [] = (if pat = [] then Some (rev acc, []) else None)"
| "findSplit pat acc (c # cs) =
     (if prefix pat (c # cs) then Some (rev acc, drop (length pat) (c # cs))
      else findSplit pat (c # acc) cs)"

fun expandReplacement :: "string \<Rightarrow> string \<Rightarrow> string \<Rightarrow> string \<Rightarrow> string" where
  "expandReplacement m b a [] = []"
| "expandReplacement m b a [c] = [c]"
| "expandReplacement m b a (c # d # r) =
     (if c = CHR ''$'' then
        (if d = CHR ''$'' then CHR ''$'' # expandReplacement m b a r
         else if d = CHR ''&'' then m @ expandReplacement m b a r
         else if d = CHR 0x60 then b @ expandReplacement m b a r
         else if d = CHR 0x27 then a @ expandReplacement m b a r
         else c # expandReplacement m b a (d # r))
      else c # expandReplacement m b a (d # r))"

definition jsReplace :: "string \<Rightarrow> string \<Rightarrow> string \<Rightarrow> string" where
  "jsReplace s pat replacement =
     (case findSplit pat [] s of
        None \<Rightarrow> s
      | Some (front, back) \<Rightarrow> front @ expandReplacement pat front back replacement @ back)"

text \<open>\<open>s.length\<close>, in UTF-16 code units, of a string given by its UTF-8 bytes.\<close>

definition utf16Units :: "char \<Rightarrow> nat" where
  "utf16Units c =
     (let b = (of_char c :: nat) in
      if b < 0x80 then 1 else if b < 0xC0 then 0 else if b < 0xF0 then 1 else 2)"

definition utf16Length :: "string \<Rightarrow> nat" where
  "utf16Length s = sum_list (map utf16Units s)"

record Message =
  msgText :: string
  msgButtons :: "InlineKeyboard option"

text \<open>
  What the future returned by \<open>queue.sendMessage\<close> or \<open>queue.editMessage\<close> does: it
  resolves, it rejects, or it never settles (the remote API answers 429 for ever).
\<close>

datatype SendOutcome = SendResolves int | SendRejects TelegramError | SendNeverSettles

datatype EditOutcome = EditResolves bool | EditRejects TelegramError | EditNeverSettles

text \<open>
  A call of \<open>bots[botId].queue.sendMessage(chatId, text, buttons)\<close> or of
  \<open>bots[botId].queue.editMessage(chatId, msgId, text, buttons)\<close> by the processor, with
  what its future did.
\<close>

datatype ProcessorEvent =
    SendEvent string ChatId string "InlineKeyboard option" SendOutcome
  | EditEvent string ChatId int string "InlineKeyboard option" EditOutcome

text \<open>
  The surroundings of the processor: the watchlist snapshot, the active bots, the
  signature lookup, the two decoders, the renderer's \<open>build\<close> (it may throw), what the
  delivery queues and the remote API do for a send or an edit (threading a state
  \<open>'w\<close> of the remote side), and \<open>Number\<close> on a chat id (\<open>None\<close> for NaN).
\<close>

record 'w ProcessorEnv =
  peWatchlist :: "WatchlistEntry Record Record"
  peBots :: "string list"
  peResolveSelector :: "string \<Rightarrow> js_error + string"
  peDecodeFast :: "TransactionData \<Rightarrow> string \<Rightarrow> TracerResult"
  peDecodeFull :: "TransactionData \<Rightarrow> string \<Rightarrow> TracerResult"
  peBuild :: "string \<Rightarrow> TransactionData \<Rightarrow> TracerResult \<Rightarrow> string \<Rightarrow> js_error + Message"
  peSend :: "'w \<Rightarrow> string \<Rightarrow> ChatId \<Rightarrow> string \<Rightarrow> InlineKeyboard option \<Rightarrow> SendOutcome \<times> 'w"
  peEdit :: "'w \<Rightarrow> string \<Rightarrow> ChatId \<Rightarrow> int \<Rightarrow> string \<Rightarrow> InlineKeyboard option \<Rightarrow> EditOutcome \<times> 'w"
  peToNumber :: "string \<Rightarrow> int option"

text \<open>\<open>enqueueSendMessage\<close> and \<open>enqueueEditMessage\<close> reject a text of more than 4096 characters.\<close>

definition queueSendMessage ::
  "'w ProcessorEnv \<Rightarrow> 'w \<Rightarrow> string \<Rightarrow> ChatId \<Rightarrow> string \<Rightarrow> InlineKeyboard option \<Rightarrow> SendOutcome \<times> 'w" where
  "queueSendMessage env w botId chatId text buttons =
     (if utf16Length text > 4096 then (SendRejects (OtherError ''Message too long''), w)
      else peSend env w botId chatId text buttons)"

definition queueEditMessage ::
  "'w ProcessorEnv \<Rightarrow> 'w \<Rightarrow> string \<Rightarrow> ChatId \<Rightarrow> int \<Rightarrow> string \<Rightarrow> InlineKeyboard option
     \<Rightarrow> EditOutcome \<times> 'w" where
  "queueEditMessage env w botId chatId msgId text buttons =
     (if utf16Length text > 4096 then (EditRejects (OtherError ''Message too long''), w)
      else peEdit env w botId chatId msgId text buttons)"

text \<open>\<open>const [chatIdRaw, botId] = id.split("@")\<close>; a missing bot id is \<open>undefined\<close>.\<close>

definition chatIdRawOf :: "string \<Rightarrow> string" where
  "chatIdRawOf ident = hd (splitOn (CHR ''@'') ident)"

definition botIdOf :: "string \<Rightarrow> string" where
  "botIdOf ident = (case splitOn (CHR ''@'') ident of p # b # rest \<Rightarrow> b | _ \<Rightarrow> ''undefined'')"

definition chatIdOf :: "'w ProcessorEnv \<Rightarrow> string \<Rightarrow> ChatId" where
  "chatIdOf env ident =
     (case peToNumber env (chatIdRawOf ident) of
        None \<Rightarrow> ChatString (chatIdRawOf ident)
      | Some n \<Rightarrow> ChatNumber n)"

definition sentKey :: "string \<Rightarrow> string \<Rightarrow> string" where
  "sentKey address hash = address @ '':'' @ hash"

text \<open>\<open>alreadySent\<close>: the answer and the set of keys afterwards.\<close>

definition alreadySent :: "string list \<Rightarrow> string \<Rightarrow> string \<Rightarrow> bool \<times> string list" where
  "alreadySent sent address hash =
     (let key = sentKey address hash in
      if key \<in> set sent then (True, sent)
      else
        (let added = setAdd sent key in
         if length added > 10000 then
           (case added of
              first # rest \<Rightarrow> (False, if first \<noteq> [] then setDelete added first else added)
            | [] \<Rightarrow> (False, added))
         else (False, added)))"

definition getWatchers :: "'w ProcessorEnv \<Rightarrow> string \<Rightarrow> WatchlistEntry Record" where
  "getWatchers env address =
     foldl (\<lambda>res entry. if botIdOf (fst entry) \<in> set (peBots env)
                         then recordSet res (fst entry) (snd entry) else res)
           [] (orElse (recordGet (peWatchlist env) address) [])"

datatype 'a Batch = BatchDone 'a | BatchThrows | BatchHangs

text \<open>
  The loop of \<open>massSend\<close> over the watchers that are left, with the map \<open>sent\<close> built
  so far: how the batch ends, the sends made, and the remote state.
\<close>

fun massSendLoop ::
  "'w ProcessorEnv \<Rightarrow> Message \<Rightarrow> bool \<Rightarrow> (string \<times> WatchlistEntry) list \<Rightarrow> int Record \<Rightarrow> 'w
     \<Rightarrow> int Record Batch \<times> ProcessorEvent list \<times> 'w" where
  "massSendLoop env msg txOutgoing [] sent w = (BatchDone sent, [], w)"
| "massSendLoop env msg txOutgoing ((ident, watcher) # rest) sent w =
     (if \<not> txOutgoing \<and> \<not> tx_in watcher then massSendLoop env msg txOutgoing rest sent w
      else if txOutgoing \<and> \<not> tx_out watcher then massSendLoop env msg txOutgoing rest sent w
      else if botIdOf ident \<notin> set (peBots env) then massSendLoop env msg txOutgoing rest sent w
      else
        (let text = jsReplace (msgText msg) ''$$NAME$$'' (weName watcher);
             (outcome, w1) =
               queueSendMessage env w (botIdOf ident) (chatIdOf env ident) text (msgButtons msg);
             ev = SendEvent (botIdOf ident) (chatIdOf env ident) text (msgButtons msg) outcome
         in case outcome of
              SendResolves messageId \<Rightarrow>
                (let (r, evs, w2) =
                       massSendLoop env msg txOutgoing rest
                         (if messageId \<noteq> 0 then recordSet sent ident messageId else sent) w1
                 in (r, ev # evs, w2))
            | SendRejects err \<Rightarrow> (BatchThrows, [ev], w1)
            | SendNeverSettles \<Rightarrow> (BatchHangs, [ev], w1)))"

definition massSend ::
  "'w ProcessorEnv \<Rightarrow> WatchlistEntry Record \<Rightarrow> Message \<Rightarrow> bool \<Rightarrow> 'w
     \<Rightarrow> int Record Batch \<times> ProcessorEvent list \<times> 'w" where
  "massSend env watchers msg txOutgoing w = massSendLoop env msg txOutgoing watchers [] w"

text \<open>
  The loop of \<open>massUpdate\<close> over the entries of \<open>sentMap\<close> that are left. Reading a
  field of \<open>watchers[id]\<close> throws when the id is not a watcher.
\<close>

fun massUpdateLoop ::
  "'w ProcessorEnv \<Rightarrow> WatchlistEntry Record \<Rightarrow> Message \<Rightarrow> bool \<Rightarrow> (string \<times> int) list \<Rightarrow> 'w
     \<Rightarrow> unit Batch \<times> ProcessorEvent list \<times> 'w" where
  "massUpdateLoop env watchers msg txOutgoing [] w = (BatchDone (), [], w)"
| "massUpdateLoop env watchers msg txOutgoing ((ident, messageId) # rest) w =
     (case recordGet watchers ident of
        None \<Rightarrow> (BatchThrows, [], w)
      | Some watcher \<Rightarrow>
          if \<not> txOutgoing \<and> \<not> tx_in watcher then massUpdateLoop env watchers msg txOutgoing rest w
          else if txOutgoing \<and> \<not> tx_out watcher then massUpdateLoop env watchers msg txOutgoing rest w
          else if botIdOf ident \<notin> set (peBots env) then massUpdateLoop env watchers msg txOutgoing rest w
          else
            (let text = jsReplace (msgText msg) ''$$NAME$$'' (weName watcher);
                 (outcome, w1) =
                   queueEditMessage env w (botIdOf ident) (chatIdOf env ident) messageId text
                     (msgButtons msg);
                 ev = EditEvent (botIdOf ident) (chatIdOf env ident) messageId text (msgButtons msg)
                        outcome
             in case outcome of
                  EditResolves b \<Rightarrow>
                    (let (r, evs, w2) = massUpdateLoop env watchers msg txOutgoing rest w1
                     in (r, ev # evs, w2))
                | EditRejects err \<Rightarrow> (BatchThrows, [ev], w1)
                | EditNeverSettles \<Rightarrow> (BatchHangs, [ev], w1)))"

definition massUpdate ::
  "'w ProcessorEnv \<Rightarrow> WatchlistEntry Record \<Rightarrow> Message \<Rightarrow> int Record \<Rightarrow> bool \<Rightarrow> 'w
     \<Rightarrow> unit Batch \<times> ProcessorEvent list \<times> 'w" where
  "massUpdate env watchers msg sentMap txOutgoing w =
     massUpdateLoop env watchers msg txOutgoing sentMap w"

text \<open>
  \<open>process\<close>: the set of keys and the remote state afterwards, the sends and edits
  made, and whether the call returned (it does not when a future never settles). Every
  exception is caught and logged.
\<close>

definition process ::
  "'w ProcessorEnv \<Rightarrow> string list \<Rightarrow> 'w \<Rightarrow> string \<Rightarrow> TransactionData
     \<Rightarrow> string list \<times> 'w \<times> ProcessorEvent list \<times> bool" where
  "process env sent w address tx =
     (let (already, sent1) = alreadySent sent address (txHash tx) in
      if already then (sent1, w, [], True)
      else
        (let watchers = getWatchers env address in
         if length (recordKeys watchers) = 0 then (sent1, w, [], True)
         else
           (let selector = jsSlice 0 10 (txData tx) in
            case peResolveSelector env selector of
              Inl e \<Rightarrow> (sent1, w, [], True)
            | Inr signature \<Rightarrow>
                if selector = ''0x'' \<and> toDouble (of_int (txValue tx) / 10 ^ 18) < toDouble (1 / 100)
                then (sent1, w, [], True)
                else
                  (let fast = peDecodeFast env tx address;
                       txOutgoing = (address = txFrom tx)
                   in case peBuild env address tx fast signature of
                        Inl e \<Rightarrow> (sent1, w, [], True)
                      | Inr fastMsg \<Rightarrow>
                          (case massSend env watchers fastMsg txOutgoing w of
                             (BatchThrows, e1, w1) \<Rightarrow> (sent1, w1, e1, True)
                           | (BatchHangs, e1, w1) \<Rightarrow> (sent1, w1, e1, False)
                           | (BatchDone sentMap, e1, w1) \<Rightarrow>
                               (let full = peDecodeFull env tx address in
                                case peBuild env address tx full signature of
                                  Inl e \<Rightarrow> (sent1, w1, e1, True)
                                | Inr fullMsg \<Rightarrow>
                                    (case massUpdate env watchers fullMsg sentMap txOutgoing w1 of
                                       (BatchHangs, e2, w2) \<Rightarrow> (sent1, w2, e1 @ e2, False)
                                     | (r, e2, w2) \<Rightarrow> (sent1, w2, e1 @ e2, True))))))))"

text \<open>
  \<open>handle\<close> calls \<open>process\<close> for the matching addresses in this order: the sender,
  the recipient, the ERC20 transfer recipient, the addresses found in the calldata.
\<close>

definition handleTargets :: "'w ProcessorEnv \<Rightarrow> TransactionData \<Rightarrow> string list" where
  "handleTargets env tx =
     (let watchlist = recordKeys (peWatchlist env) in
      (if txFrom tx \<in> set watchlist then [txFrom tx] else [])
      @ (case txTo tx of
           Some t \<Rightarrow> (if t \<noteq> [] \<and> t \<in> set watchlist then [t] else [])
         | None \<Rightarrow> [])
      @ (case extractTransferRecipient (txData tx) of
           Some transferTo \<Rightarrow> (if transferTo \<noteq> [] \<and> transferTo \<in> set watchlist then [transferTo] else [])
         | None \<Rightarrow> [])
      @ filter (\<lambda>address. address \<in> set watchlist) (extractAddressesFromCalldata (txData tx)))"

fun processEach ::
  "'w ProcessorEnv \<Rightarrow> TransactionData \<Rightarrow> string list \<Rightarrow> string list \<Rightarrow> 'w
     \<Rightarrow> string list \<times> 'w \<times> ProcessorEvent list \<times> bool" where
  "processEach env tx [] sent w = (sent, w, [], True)"
| "processEach env tx (address # rest) sent w =
     (let (sent1, w1, e1, returned) = process env sent w address tx in
      if returned then
        (let (sent2, w2, e2, r2) = processEach env tx rest sent1 w1 in (sent2, w2, e1 @ e2, r2))
      else (sent1, w1, e1, False))"

definition handle ::
  "'w ProcessorEnv \<Rightarrow> string list \<Rightarrow> 'w \<Rightarrow> TransactionData
     \<Rightarrow> string list \<times> 'w \<times> ProcessorEvent list \<times> bool" where
  "handle env sent w tx = processEach env tx (handleTargets env tx) sent w"

subsection \<open>Claims about deduplication in the processor\<close>

text \<open>
  A sequence of calls of \<open>process\<close>, each for a watched address and a transaction:
  the set of keys and the remote state at the end, and the sends and edits of each call.
\<close>

fun processCalls ::
  "'w ProcessorEnv \<Rightarrow> string list \<Rightarrow> 'w \<Rightarrow> (string \<times> TransactionData) list
     \<Rightarrow> string list \<times> 'w \<times> ProcessorEvent list list" where
  "processCalls env sent w [] = (sent, w, [])"
| "processCalls env sent w (call # calls) =
     (let (sent1, w1, e1, returned) = process env sent w (fst call) (snd call);
          (sent2, w2, es) = processCalls env sent1 w1 calls
      in (sent2, w2, e1 # es))"

definition sentAfter :: "'w ProcessorEnv \<Rightarrow> 'w \<Rightarrow> (string \<times> TransactionData) list \<Rightarrow> string list" where
  "sentAfter env w calls = fst (processCalls env [] w calls)"

definition callEvents ::
  "'w ProcessorEnv \<Rightarrow> 'w \<Rightarrow> (string \<times> TransactionData) list \<Rightarrow> ProcessorEvent list list" where
  "callEvents env w calls = snd (snd (processCalls env [] w calls))"

definition callKey :: "string \<times> TransactionData \<Rightarrow> string" where
  "callKey call = sentKey (fst call) (txHash (snd call))"

definition sentInv :: "string list \<Rightarrow> bool" where
  "sentInv sent = (distinct sent \<and> length sent \<le> 10000 \<and> [] \<notin> set sent)"

text \<open>The key is among the last \<open>n\<close> entries of the set.\<close>

definition recent :: "nat \<Rightarrow> string \<Rightarrow> string list \<Rightarrow> bool" where
  "recent n k sent = (k \<in> set (drop (length sent - n) sent))"

lemma sentKey_nonempty: "sentKey a h \<noteq> []" "[] \<noteq> sentKey a h"
  by (simp_all add: sentKey_def)

lemma alreadySent_inv:
  assumes "sentInv sent"
  shows "alreadySent sent a h =
     (if sentKey a h \<in> set sent then (True, sent)
      else (False, if length sent \<ge> 10000 then tl (sent @ [sentKey a h]) else sent @ [sentKey a h]))"
proof (cases "sentKey a h \<in> set sent")
  case True
  then show ?thesis by (simp add: alreadySent_def)
next
  case False
  define added where "added = sent @ [sentKey a h]"
  have add: "setAdd sent (sentKey a h) = added"
    using False by (simp add: setAdd_def added_def)
  from assms False have d: "distinct added" and ne: "[] \<notin> set added"
    by (auto simp: added_def sentInv_def sentKey_nonempty)
  have len: "length added = Suc (length sent)" by (simp add: added_def)
  show ?thesis
  proof (cases "length sent \<ge> 10000")
    case True
    then obtain first rest where fr: "added = first # rest"
      by (cases added) (auto simp: added_def)
    with d ne have "setDelete added first = rest" and "first \<noteq> []"
      by (auto simp: setDelete_def)
    with True False fr len show ?thesis
      unfolding alreadySent_def Let_def add added_def [symmetric] by simp
  next
    case F: False
    with False len show ?thesis
      unfolding alreadySent_def Let_def add added_def [symmetric] by simp
  qed
qed

lemma alreadySent_preserves:
  assumes "sentInv sent"
  shows "sentInv (snd (alreadySent sent a h))"
proof -
  from assms have d: "distinct sent" and l: "length sent \<le> 10000" and n: "[] \<notin> set sent"
    by (simp_all add: sentInv_def)
  show ?thesis
  proof (cases "sentKey a h \<in> set sent")
    case True
    with assms show ?thesis by (simp add: alreadySent_inv)
  next
    case False
    define added where "added = sent @ [sentKey a h]"
    from d n False have da: "distinct added" and na: "[] \<notin> set added"
      by (auto simp: added_def sentKey_nonempty)
    have la: "length added = Suc (length sent)" by (simp add: added_def)
    from da have dt: "distinct (tl added)" by (rule distinct_tl)
    from na have nt: "[] \<notin> set (tl added)"
      by (cases added) auto
    from False have "snd (alreadySent sent a h) = (if length sent \<ge> 10000 then tl added else added)"
      by (simp add: alreadySent_inv [OF assms] added_def)
    with da na la dt nt l show ?thesis
      by (auto simp: sentInv_def)
  qed
qed

lemma alreadySent_member:
  assumes "sentInv sent"
  shows "sentKey a h \<in> set (snd (alreadySent sent a h))"
proof (cases "sentKey a h \<in> set sent")
  case True
  with assms show ?thesis by (simp add: alreadySent_inv)
next
  case False
  then have eq: "snd (alreadySent sent a h) =
      (if length sent \<ge> 10000 then tl (sent @ [sentKey a h]) else sent @ [sentKey a h])"
    by (simp add: alreadySent_inv [OF assms])
  show ?thesis
  proof (cases sent)
    case Nil
    with eq show ?thesis by simp
  next
    case (Cons x xs)
    with eq show ?thesis by simp
  qed
qed

lemma recent_last: "recent 1 k (xs @ [k])"
  by (simp add: recent_def)

lemma recent_mono: "recent n k sent \<Longrightarrow> recent (Suc n) k sent"
proof -
  assume "recent n k sent"
  then have "k \<in> set (drop (length sent - n) sent)" by (simp add: recent_def)
  moreover have "set (drop (length sent - n) sent) \<subseteq> set (drop (length sent - Suc n) sent)"
    by (rule set_drop_subset_set_drop) simp
  ultimately show ?thesis by (auto simp: recent_def)
qed

lemma recent_member: "recent n k sent \<Longrightarrow> k \<in> set sent"
  by (auto simp: recent_def dest: in_set_dropD)

lemma recent_snoc: "recent n k sent \<Longrightarrow> recent (Suc n) k (sent @ [x])"
proof -
  assume "recent n k sent"
  then have k: "k \<in> set (drop (length sent - n) sent)" by (simp add: recent_def)
  have "drop (length (sent @ [x]) - Suc n) (sent @ [x]) = drop (length sent - n) sent @ [x]"
    by simp
  with k show ?thesis by (simp add: recent_def)
qed

lemma recent_tl:
  assumes "recent n k xs" and "n < length xs"
  shows "recent n k (tl xs)"
proof -
  from assms(2) obtain y ys where xs: "xs = y # ys" by (cases xs) auto
  with assms(2) have "length xs - n = Suc (length ys - n)" by simp
  with assms(1) xs show ?thesis by (simp add: recent_def)
qed

lemma alreadySent_recent:
  assumes inv: "sentInv sent" and r: "recent n k sent" and n: "Suc n \<le> 10000"
  shows "recent (Suc n) k (snd (alreadySent sent a h))"
proof (cases "sentKey a h \<in> set sent")
  case True
  with inv r show ?thesis by (simp add: alreadySent_inv recent_mono)
next
  case False
  have rs: "recent (Suc n) k (sent @ [sentKey a h])"
    using r by (rule recent_snoc)
  show ?thesis
  proof (cases "length sent \<ge> 10000")
    case True
    with n have "Suc n < length (sent @ [sentKey a h])" by simp
    from recent_tl [OF rs this] True False show ?thesis
      by (simp add: alreadySent_inv [OF inv])
  next
    case F: False
    with False rs show ?thesis by (simp add: alreadySent_inv [OF inv])
  qed
qed

lemma process_sent:
  "fst (process env sent w a tx) = snd (alreadySent sent a (txHash tx))"
  by (auto simp: process_def Let_def split: prod.splits sum.splits Batch.splits)

lemma process_already:
  assumes "sentKey a (txHash tx) \<in> set sent"
  shows "process env sent w a tx = (sent, w, [], True)"
  using assms by (simp add: process_def alreadySent_def Let_def)

lemma process_events_new:
  assumes "fst (snd (snd (process env sent w a tx))) \<noteq> []"
  shows "sentKey a (txHash tx) \<notin> set sent"
  using assms process_already [of a tx sent env w] by auto

lemma processCalls_Cons:
  "processCalls env sent w (call # calls) =
     (fst (processCalls env (fst (process env sent w (fst call) (snd call)))
             (fst (snd (process env sent w (fst call) (snd call)))) calls),
      fst (snd (processCalls env (fst (process env sent w (fst call) (snd call)))
             (fst (snd (process env sent w (fst call) (snd call)))) calls)),
      fst (snd (snd (process env sent w (fst call) (snd call))))
        # snd (snd (processCalls env (fst (process env sent w (fst call) (snd call)))
             (fst (snd (process env sent w (fst call) (snd call)))) calls)))"
  by (simp add: case_prod_unfold Let_def)

lemma processCalls_inv:
  "sentInv sent \<Longrightarrow> sentInv (fst (processCalls env sent w calls))"
proof (induction calls arbitrary: sent w)
  case Nil
  then show ?case by simp
next
  case (Cons call calls)
  obtain sent1 w1 e1 r where p: "process env sent w (fst call) (snd call) = (sent1, w1, e1, r)"
    by (cases "process env sent w (fst call) (snd call)") auto
  with process_sent [of env sent w "fst call" "snd call"] alreadySent_preserves [OF Cons.prems]
  have "sentInv sent1" by simp
  from Cons.IH [OF this, of w1] p show ?case
    by (simp add: processCalls_Cons del: processCalls.simps)
qed

lemma processCalls_length:
  "length (snd (snd (processCalls env sent w calls))) = length calls"
  by (induction calls arbitrary: sent w) (simp_all add: processCalls_Cons del: processCalls.simps(2))

lemma processCalls_recent:
  assumes "sentInv sent" and "recent n k sent" and "j < length calls"
    and "n + j \<le> 10000" and "callKey (calls ! j) = k"
  shows "snd (snd (processCalls env sent w calls)) ! j = []"
  using assms
proof (induction calls arbitrary: sent w n j)
  case Nil
  then show ?case by simp
next
  case (Cons call calls)
  obtain sent1 w1 e1 r where p: "process env sent w (fst call) (snd call) = (sent1, w1, e1, r)"
    by (cases "process env sent w (fst call) (snd call)") auto
  from p process_sent [of env sent w "fst call" "snd call"]
  have s1: "sent1 = snd (alreadySent sent (fst call) (txHash (snd call)))" by simp
  show ?case
  proof (cases j)
    case 0
    with Cons.prems have "sentKey (fst call) (txHash (snd call)) \<in> set sent"
      by (auto simp: callKey_def dest: recent_member)
    from process_already [OF this, of env w] show ?thesis
      using 0 by (simp add: processCalls_Cons del: processCalls.simps)
  next
    case (Suc j')
    with Cons.prems have n: "Suc n \<le> 10000" by simp
    from alreadySent_recent [OF Cons.prems(1,2) n] s1 have r1: "recent (Suc n) k sent1" by simp
    from alreadySent_preserves [OF Cons.prems(1)] s1 have i1: "sentInv sent1" by simp
    from Cons.prems Suc have "j' < length calls" "Suc n + j' \<le> 10000" "callKey (calls ! j') = k"
      by simp_all
    from Cons.IH [OF i1 r1 this, of w1] p Suc show ?thesis
      by (simp add: processCalls_Cons del: processCalls.simps)
  qed
qed

lemma processCalls_once:
  assumes "sentInv sent" and "i < j" and "j < length calls" and "j \<le> i + 10000"
    and "callKey (calls ! i) = callKey (calls ! j)"
  shows "snd (snd (processCalls env sent w calls)) ! i = []
       \<or> snd (snd (processCalls env sent w calls)) ! j = []"
  using assms
proof (induction calls arbitrary: sent w i j)
  case Nil
  then show ?case by simp
next
  case (Cons call calls)
  obtain sent1 w1 e1 r where p: "process env sent w (fst call) (snd call) = (sent1, w1, e1, r)"
    by (cases "process env sent w (fst call) (snd call)") auto
  from p process_sent [of env sent w "fst call" "snd call"]
  have s1: "sent1 = snd (alreadySent sent (fst call) (txHash (snd call)))" by simp
  from alreadySent_preserves [OF Cons.prems(1)] s1 have i1: "sentInv sent1" by simp
  from Cons.prems obtain j' where j: "j = Suc j'" by (cases j) auto
  show ?case
  proof (cases i)
    case 0
    show ?thesis
    proof (cases "e1 = []")
      case True
      with p 0 show ?thesis by (simp add: processCalls_Cons del: processCalls.simps)
    next
      case False
      with p process_events_new [of env sent w "fst call" "snd call"]
      have new: "sentKey (fst call) (txHash (snd call)) \<notin> set sent" by simp
      from Cons.prems(1) have "length sent \<ge> 10000 \<Longrightarrow> sent \<noteq> []" by auto
      with new s1 have "recent 1 (callKey call) sent1"
        unfolding callKey_def alreadySent_inv [OF Cons.prems(1)]
        by (cases sent) (auto simp: recent_def)
      moreover from Cons.prems 0 j have "j' < length calls" "1 + j' \<le> 10000"
        "callKey (calls ! j') = callKey call" by simp_all
      ultimately have "snd (snd (processCalls env sent1 w1 calls)) ! j' = []"
        using processCalls_recent [OF i1, of 1 "callKey call" j' calls env w1] by simp
      with p j show ?thesis by (simp add: processCalls_Cons del: processCalls.simps)
    qed
  next
    case (Suc i')
    with Cons.prems j have "i' < j'" "j' < length calls" "j' \<le> i' + 10000"
      "callKey (calls ! i') = callKey (calls ! j')" by simp_all
    from Cons.IH [OF i1 this, of w1] p Suc j show ?thesis
      by (simp add: processCalls_Cons del: processCalls.simps)
  qed
qed

text \<open>
  C3. Let \<open>process\<close> be called for any sequence of (watched address, transaction)
  pairs, from the empty set of keys. Of two calls for the same address and transaction
  hash that are at most 10000 calls apart, at most one makes any send (or edit). The set
  of keys is duplicate-free and never holds more than 10000 entries; a pair whose key is
  in the set performs no send and changes nothing; a new key is added at the end, and
  when this makes the set exceed 10000 entries the oldest entry is removed.
\<close>

theorem process_sends_once_per_pair:
  "(\<forall>i j. i < j \<and> j < length calls \<and> j \<le> i + 10000
          \<and> fst (calls ! i) = fst (calls ! j)
          \<and> txHash (snd (calls ! i)) = txHash (snd (calls ! j))
       \<longrightarrow> callEvents env w calls ! i = [] \<or> callEvents env w calls ! j = [])
   \<and> distinct (sentAfter env w calls)
   \<and> length (sentAfter env w calls) \<le> 10000
   \<and> (\<forall>address tx w'. sentKey address (txHash tx) \<in> set (sentAfter env w calls)
          \<longrightarrow> process env (sentAfter env w calls) w' address tx
                = (sentAfter env w calls, w', [], True))
   \<and> (\<forall>address hash. alreadySent (sentAfter env w calls) address hash =
          (if sentKey address hash \<in> set (sentAfter env w calls)
           then (True, sentAfter env w calls)
           else (False,
                 if length (sentAfter env w calls) \<ge> 10000
                 then tl (sentAfter env w calls @ [sentKey address hash])
                 else sentAfter env w calls @ [sentKey address hash])))"
proof -
  have init: "sentInv []" by (simp add: sentInv_def)
  have inv: "sentInv (sentAfter env w calls)"
    unfolding sentAfter_def by (rule processCalls_inv [OF init])
  have once: "callEvents env w calls ! i = [] \<or> callEvents env w calls ! j = []"
    if "i < j" "j < length calls" "j \<le> i + 10000" "fst (calls ! i) = fst (calls ! j)"
      "txHash (snd (calls ! i)) = txHash (snd (calls ! j))" for i j
  proof -
    from that(4,5) have "callKey (calls ! i) = callKey (calls ! j)"
      by (simp add: callKey_def)
    from processCalls_once [OF init that(1-3) this] show ?thesis
      by (simp add: callEvents_def)
  qed
  from inv have d: "distinct (sentAfter env w calls)" and l: "length (sentAfter env w calls) \<le> 10000"
    by (simp_all add: sentInv_def)
  have c1: "\<forall>i j. i < j \<and> j < length calls \<and> j \<le> i + 10000
          \<and> fst (calls ! i) = fst (calls ! j)
          \<and> txHash (snd (calls ! i)) = txHash (snd (calls ! j))
       \<longrightarrow> callEvents env w calls ! i = [] \<or> callEvents env w calls ! j = []"
    using once by blast
  have c4: "\<forall>address tx w'. sentKey address (txHash tx) \<in> set (sentAfter env w calls)
          \<longrightarrow> process env (sentAfter env w calls) w' address tx
                = (sentAfter env w calls, w', [], True)"
    by (intro allI impI) (rule process_already)
  have c5: "\<forall>address hash. alreadySent (sentAfter env w calls) address hash =
          (if sentKey address hash \<in> set (sentAfter env w calls)
           then (True, sentAfter env w calls)
           else (False,
                 if length (sentAfter env w calls) \<ge> 10000
                 then tl (sentAfter env w calls @ [sentKey address hash])
                 else sentAfter env w calls @ [sentKey address hash]))"
    using alreadySent_inv [OF inv] by (intro allI)
  show ?thesis
    by (intro conjI) (rule c1, rule d, rule l, rule c4, rule c5)
qed

definition exampleMessage :: Message where
  "exampleMessage = \<lparr>msgText = ''<b>$$NAME$$</b> swap'', msgButtons = None\<rparr>"

definition exampleWatcher :: string where
  "exampleWatcher = ''0x5aaeb6053f3e94c9b9a09f33669435e7ef1beaed''"

text \<open>
  An example: one subscriber of the watched address with the bot active, every send
  resolving with a fresh message id and every edit resolving.
\<close>

definition exampleEnv :: "nat ProcessorEnv" where
  "exampleEnv =
     \<lparr>peWatchlist = updateWatchlist
        [\<lparr>rowAddress = exampleWatcher, rowName = ''whale'', rowChatId = 1001,
          rowBotId = ''eth_spybot''\<rparr>],
      peBots = [''eth_spybot''],
      peResolveSelector = (\<lambda>s. Inr s),
      peDecodeFast = (\<lambda>tx a. exampleFailedSwap\<lparr>trStatus := None\<rparr>),
      peDecodeFull = (\<lambda>tx a. exampleFailedSwap),
      peBuild = (\<lambda>a tx tr sig. Inr exampleMessage),
      peSend = (\<lambda>w b c t k. (SendResolves (int w + 500), Suc w)),
      peEdit = (\<lambda>w b c m t k. (EditResolves True, Suc w)),
      peToNumber = (\<lambda>s. if s = ''1001'' then Some 1001 else None)\<rparr>"

definition exampleCalls :: "(string \<times> TransactionData) list" where
  "exampleCalls = [(exampleWatcher, exampleSwapTx), (exampleWatcher, exampleSwapTx)]"

lemma exampleWatchlist:
  "updateWatchlist [\<lparr>rowAddress = exampleWatcher, rowName = ''whale'', rowChatId = 1001,
          rowBotId = ''eth_spybot''\<rparr>]
     = [(exampleWatcher, [(''1001@eth_spybot'', \<lparr>weName = ''whale'', tx_in = False, tx_out = True\<rparr>)])]"
  by code_simp

lemma exampleCalls_run:
  "callEvents exampleEnv 0 exampleCalls =
     [[SendEvent ''eth_spybot'' (ChatNumber 1001) ''<b>whale</b> swap'' None (SendResolves 500),
       EditEvent ''eth_spybot'' (ChatNumber 1001) 500 ''<b>whale</b> swap'' None (EditResolves True)],
      []]"
  by code_simp

theorem process_sends_once_per_pair_witness:
  "(0::nat) < 1 \<and> 1 < length exampleCalls \<and> (1::nat) \<le> 0 + 10000
   \<and> fst (exampleCalls ! 0) = fst (exampleCalls ! 1)
   \<and> txHash (snd (exampleCalls ! 0)) = txHash (snd (exampleCalls ! 1))
   \<and> (callEvents exampleEnv 0 exampleCalls ! 0 = [] \<or> callEvents exampleEnv 0 exampleCalls ! 1 = [])
   \<and> callEvents exampleEnv 0 exampleCalls ! 0 \<noteq> []"
proof -
  have h: "(0::nat) < 1 \<and> 1 < length exampleCalls \<and> (1::nat) \<le> 0 + 10000
      \<and> fst (exampleCalls ! 0) = fst (exampleCalls ! 1)
      \<and> txHash (snd (exampleCalls ! 0)) = txHash (snd (exampleCalls ! 1))"
    by (simp add: exampleCalls_def)
  from process_sends_once_per_pair [of exampleCalls exampleEnv 0]
  have "\<forall>i j. i < j \<and> j < length exampleCalls \<and> j \<le> i + 10000
          \<and> fst (exampleCalls ! i) = fst (exampleCalls ! j)
          \<and> txHash (snd (exampleCalls ! i)) = txHash (snd (exampleCalls ! j))
       \<longrightarrow> callEvents exampleEnv 0 exampleCalls ! i = [] \<or> callEvents exampleEnv 0 exampleCalls ! j = []"
    by blast
  with h have "callEvents exampleEnv 0 exampleCalls ! 0 = [] \<or> callEvents exampleEnv 0 exampleCalls ! 1 = []"
    by blast
  with h show ?thesis by (simp add: exampleCalls_run)
qed

subsection \<open>Claims about the edit after the send\<close>

fun isSendEvent :: "ProcessorEvent \<Rightarrow> bool" where
  "isSendEvent (SendEvent b c t k out) = True"
| "isSendEvent (EditEvent b c m t k out) = False"

text \<open>
  A send to the subscriber with this id that resolved with the message id \<open>m\<close> is
  among the events.
\<close>

definition sentTo :: "'w ProcessorEnv \<Rightarrow> ProcessorEvent list \<Rightarrow> string \<Rightarrow> int \<Rightarrow> bool" where
  "sentTo env evs ident m =
     (\<exists>t k. SendEvent (botIdOf ident) (chatIdOf env ident) t k (SendResolves m) \<in> set evs)"

lemma massSendLoop_sends:
  "list_all isSendEvent (fst (snd (massSendLoop env msg out ws sent w)))"
proof (induction env msg out ws sent w rule: massSendLoop.induct)
  case (1 env msg out sent w)
  then show ?case by simp
next
  case (2 env msg out ident watcher rest sent w)
  then show ?case
    by (auto simp: Let_def split: prod.splits SendOutcome.splits)
qed

lemma massSendLoop_map:
  assumes "massSendLoop env msg out ws sent w = (BatchDone sentMap, evs, w')"
    and "(ident, m) \<in> set sentMap"
  shows "(ident, m) \<in> set sent \<or> sentTo env evs ident m"
  using assms
proof (induction env msg out ws sent w arbitrary: sentMap evs w' rule: massSendLoop.induct)
  case (1 env msg out sent w)
  then show ?case by simp
next
  case (2 env msg out i watcher rest sent w)
  let ?skip = "(\<not> out \<and> \<not> tx_in watcher) \<or> (out \<and> \<not> tx_out watcher) \<or> botIdOf i \<notin> set (peBots env)"
  show ?case
  proof (cases ?skip)
    case True
    with "2.prems" have run: "massSendLoop env msg out rest sent w = (BatchDone sentMap, evs, w')"
      by (auto split: if_splits)
    from True "2.IH"(1) [OF _ run "2.prems"(2)] "2.IH"(2) [OF _ _ run "2.prems"(2)]
      "2.IH"(3) [OF _ _ _ run "2.prems"(2)]
    show ?thesis by blast
  next
    case False
    define body where "body = jsReplace (msgText msg) ''$$NAME$$'' (weName watcher)"
    obtain outcome w1 where q: "queueSendMessage env w (botIdOf i) (chatIdOf env i) body (msgButtons msg)
        = (outcome, w1)"
      by (cases "queueSendMessage env w (botIdOf i) (chatIdOf env i) body (msgButtons msg)")
    from False "2.prems"(1) q obtain messageId where res: "outcome = SendResolves messageId"
      by (cases outcome) (auto simp: Let_def body_def)
    define sent' where "sent' = (if messageId \<noteq> 0 then recordSet sent i messageId else sent)"
    obtain r evs2 w2 where run: "massSendLoop env msg out rest sent' w1 = (r, evs2, w2)"
      by (cases "massSendLoop env msg out rest sent' w1") auto
    from False "2.prems"(1) q res run
    have r: "r = BatchDone sentMap"
      and evs: "evs = SendEvent (botIdOf i) (chatIdOf env i) body (msgButtons msg) (SendResolves messageId) # evs2"
      by (auto simp: Let_def body_def sent'_def)
    from False have c1: "\<not> (\<not> out \<and> \<not> tx_in watcher)" and c2: "\<not> (out \<and> \<not> tx_out watcher)"
      and c3: "\<not> botIdOf i \<notin> set (peBots env)" by auto
    from "2.IH"(4) [OF c1 c2 c3 body_def refl q [symmetric] refl res
        run [unfolded r sent'_def] "2.prems"(2)]
    have "(ident, m) \<in> set sent' \<or> sentTo env evs2 ident m"
      by (simp add: sent'_def)
    then show ?thesis
    proof
      assume "(ident, m) \<in> set sent'"
      with recordSet_set [of sent i messageId]
      have "(ident, m) \<in> set sent \<or> (ident = i \<and> m = messageId)"
        by (auto simp: sent'_def split: if_splits)
      then show ?thesis
        by (auto simp: sentTo_def evs)
    next
      assume "sentTo env evs2 ident m"
      then show ?thesis by (auto simp: sentTo_def evs)
    qed
  qed
qed

lemma massUpdateLoop_edits:
  "list_all (\<lambda>e. \<exists>ident m t k out. e = EditEvent (botIdOf ident) (chatIdOf env ident) m t k out
                    \<and> (ident, m) \<in> set sentMap)
     (fst (snd (massUpdateLoop env watchers msg out sentMap w)))"
proof (induction env watchers msg out sentMap w rule: massUpdateLoop.induct)
  case (1 env watchers msg out w)
  then show ?case by simp
next
  case (2 env watchers msg out ident messageId rest w)
  have mono: "list_all (\<lambda>e. \<exists>i m t k out. e = EditEvent (botIdOf i) (chatIdOf env i) m t k out
                    \<and> (i, m) \<in> set rest) evs \<Longrightarrow>
        list_all (\<lambda>e. \<exists>i m t k out. e = EditEvent (botIdOf i) (chatIdOf env i) m t k out
                    \<and> (i, m) \<in> set ((ident, messageId) # rest)) evs" for evs
    by (fastforce simp: list_all_iff)
  show ?case
  proof (cases "recordGet watchers ident")
    case None
    then show ?thesis by simp
  next
    case (Some watcher)
    let ?skip = "(\<not> out \<and> \<not> tx_in watcher) \<or> (out \<and> \<not> tx_out watcher) \<or> botIdOf ident \<notin> set (peBots env)"
    show ?thesis
    proof (cases ?skip)
      case True
      with Some "2.IH"(1) [OF Some] "2.IH"(2) [OF Some] "2.IH"(3) [OF Some]
      have "list_all (\<lambda>e. \<exists>i m t k out. e = EditEvent (botIdOf i) (chatIdOf env i) m t k out
                    \<and> (i, m) \<in> set rest)
          (fst (snd (massUpdateLoop env watchers msg out ((ident, messageId) # rest) w)))"
        by auto
      then show ?thesis by (rule mono)
    next
      case False
      define body where "body = jsReplace (msgText msg) ''$$NAME$$'' (weName watcher)"
      obtain outcome w1 where q: "queueEditMessage env w (botIdOf ident) (chatIdOf env ident) messageId
          body (msgButtons msg) = (outcome, w1)"
        by (cases "queueEditMessage env w (botIdOf ident) (chatIdOf env ident) messageId
          body (msgButtons msg)")
      from False have c1: "\<not> (\<not> out \<and> \<not> tx_in watcher)" and c2: "\<not> (out \<and> \<not> tx_out watcher)"
        and c3: "\<not> botIdOf ident \<notin> set (peBots env)" by auto
      show ?thesis
      proof (cases outcome)
        case (EditResolves b)
        from "2.IH"(4) [OF Some c1 c2 c3 body_def refl q [symmetric] refl EditResolves]
        have "list_all (\<lambda>e. \<exists>i m t k out. e = EditEvent (botIdOf i) (chatIdOf env i) m t k out
                    \<and> (i, m) \<in> set rest)
            (fst (snd (massUpdateLoop env watchers msg out rest w1)))" .
        from mono [OF this] Some False q EditResolves show ?thesis
          by (auto simp: Let_def body_def split: prod.splits)
      next
        case (EditRejects err)
        with Some False q show ?thesis
          by (auto simp: Let_def body_def)
      next
        case EditNeverSettles
        with Some False q show ?thesis
          by (auto simp: Let_def body_def)
      qed
    qed
  qed
qed

lemma append_split_after:
  assumes "xs @ ys = pre @ x # post" and "x \<notin> set xs"
  shows "\<exists>pre'. pre = xs @ pre' \<and> ys = pre' @ x # post"
proof -
  from assms(1) obtain us where
    "(xs = pre @ us \<and> us @ ys = x # post) \<or> (xs @ us = pre \<and> ys = us @ x # post)"
    by (auto simp: append_eq_append_conv2)
  then show ?thesis
  proof
    assume a: "xs = pre @ us \<and> us @ ys = x # post"
    show ?thesis
    proof (cases us)
      case Nil
      with a show ?thesis by simp
    next
      case (Cons u us')
      with a have "x \<in> set xs" by auto
      with assms(2) show ?thesis by simp
    qed
  next
    assume "xs @ us = pre \<and> ys = us @ x # post"
    then show ?thesis by auto
  qed
qed

lemma process_events:
  "fst (snd (snd (process env sent w a tx))) = []
   \<or> (\<exists>ws msg out w0 r e1 w1.
         massSend env ws msg out w0 = (r, e1, w1)
         \<and> fst (snd (snd (process env sent w a tx))) = e1)
   \<or> (\<exists>ws msg out w0 sentMap e1 w1 msg2.
         massSend env ws msg out w0 = (BatchDone sentMap, e1, w1)
         \<and> fst (snd (snd (process env sent w a tx)))
             = e1 @ fst (snd (massUpdate env ws msg2 sentMap out w1)))"
proof -
  let ?ev = "fst (snd (snd (process env sent w a tx)))"
  show ?thesis
  proof (cases "fst (alreadySent sent a (txHash tx))
                \<or> length (recordKeys (getWatchers env a)) = 0")
    case True
    then have "?ev = []"
      by (auto simp: process_def Let_def split: prod.splits)
    then show ?thesis by simp
  next
    case go: False
    define selector where "selector = jsSlice 0 10 (txData tx)"
    show ?thesis
    proof (cases "peResolveSelector env selector")
      case (Inl e)
      with go have "?ev = []"
        by (auto simp: process_def Let_def selector_def split: prod.splits)
      then show ?thesis by simp
    next
      case (Inr signature)
      show ?thesis
      proof (cases "selector = ''0x'' \<and> toDouble (of_int (txValue tx) / 10 ^ 18) < toDouble (1 / 100)")
        case True
        with go Inr have "?ev = []"
          by (auto simp: process_def Let_def selector_def split: prod.splits)
        then show ?thesis by simp
      next
        case nodust: False
        define fast where "fast = peDecodeFast env tx a"
        show ?thesis
        proof (cases "peBuild env a tx fast signature")
          case (Inl e)
          with go Inr nodust have "?ev = []"
            by (auto simp: process_def Let_def selector_def fast_def split: prod.splits)
          then show ?thesis by simp
        next
          case fm: (Inr fastMsg)
          obtain r e1 w1 where ms:
            "massSend env (getWatchers env a) fastMsg (a = txFrom tx) w = (r, e1, w1)"
            by (cases "massSend env (getWatchers env a) fastMsg (a = txFrom tx) w") auto
          show ?thesis
          proof (cases r)
            case (BatchDone sentMap)
            define full where "full = peDecodeFull env tx a"
            show ?thesis
            proof (cases "peBuild env a tx full signature")
              case (Inl e)
              with go Inr nodust fm ms BatchDone have "?ev = e1"
                by (auto simp: process_def Let_def selector_def fast_def full_def split: prod.splits)
              with ms show ?thesis by blast
            next
              case um: (Inr fullMsg)
              obtain r2 e2 w2 where mu:
                "massUpdate env (getWatchers env a) fullMsg sentMap (a = txFrom tx) w1 = (r2, e2, w2)"
                by (cases "massUpdate env (getWatchers env a) fullMsg sentMap (a = txFrom tx) w1") auto
              with go Inr nodust fm ms BatchDone um have "?ev = e1 @ e2"
                by (cases r2)
                   (auto simp: process_def Let_def selector_def fast_def full_def split: prod.splits)
              with mu have "?ev = e1 @ fst (snd (massUpdate env (getWatchers env a) fullMsg sentMap
                  (a = txFrom tx) w1))" by simp
              with ms BatchDone show ?thesis by blast
            qed
          next
            case BatchThrows
            with go Inr nodust fm ms have "?ev = e1"
              by (auto simp: process_def Let_def selector_def fast_def split: prod.splits)
            with ms show ?thesis by blast
          next
            case BatchHangs
            with go Inr nodust fm ms have "?ev = e1"
              by (auto simp: process_def Let_def selector_def fast_def split: prod.splits)
            with ms show ?thesis by blast
          qed
        qed
      qed
    qed
  qed
qed

text \<open>
  C2. In the sends and edits of one call of \<open>process\<close>, every edit is preceded by a
  send to the same bot and the same chat (the same subscriber) that resolved with the
  message id the edit names: the edits are made from the map of subscriber id to message
  id that the send batch returned, and from nothing else.
\<close>

theorem edit_targets_sent_message:
  "\<forall>pre post b c m t k out.
     fst (snd (snd (process env sent w address tx))) = pre @ EditEvent b c m t k out # post
     \<longrightarrow> (\<exists>t' k'. SendEvent b c t' k' (SendResolves m) \<in> set pre)"
proof (intro allI impI)
  fix pre post b c m t k out
  let ?ev = "fst (snd (snd (process env sent w address tx)))"
  let ?x = "EditEvent b c m t k out"
  assume ev: "?ev = pre @ ?x # post"
  have nosend: "\<not> isSendEvent ?x" by simp
  from process_events [of env sent w address tx]
  consider (none) "?ev = []"
    | (sends) ws msg out' w0 r e1 w1 where
        "massSend env ws msg out' w0 = (r, e1, w1)" "?ev = e1"
    | (both) ws msg out' w0 sentMap e1 w1 msg2 where
        "massSend env ws msg out' w0 = (BatchDone sentMap, e1, w1)"
        "?ev = e1 @ fst (snd (massUpdate env ws msg2 sentMap out' w1))"
    by blast
  then show "\<exists>t' k'. SendEvent b c t' k' (SendResolves m) \<in> set pre"
  proof cases
    case none
    with ev show ?thesis by simp
  next
    case sends
    from massSendLoop_sends [of env msg out' ws "[]" w0] sends(1)
    have "list_all isSendEvent e1" by (simp add: massSend_def)
    with sends(2) ev nosend show ?thesis
      by (auto simp: list_all_iff)
  next
    case both
    let ?e2 = "fst (snd (massUpdate env ws msg2 sentMap out' w1))"
    from massSendLoop_sends [of env msg out' ws "[]" w0] both(1)
    have "list_all isSendEvent e1" by (simp add: massSend_def)
    with nosend have "?x \<notin> set e1" by (auto simp: list_all_iff)
    with append_split_after [of e1 ?e2 pre ?x post] both(2) ev
    obtain pre' where pre: "pre = e1 @ pre'" and e2: "?e2 = pre' @ ?x # post"
      by auto
    from massUpdateLoop_edits [of env sentMap ws msg2 out' w1] e2
    obtain ident where id: "b = botIdOf ident" "c = chatIdOf env ident" "(ident, m) \<in> set sentMap"
      by (auto simp: massUpdate_def list_all_iff)
    from massSendLoop_map [of env msg out' ws "[]" w0 sentMap e1 w1 ident m] both(1) id(3)
    have "sentTo env e1 ident m" by (simp add: massSend_def)
    with id pre show ?thesis by (auto simp: sentTo_def)
  qed
qed

definition exampleOutgoingTx :: TransactionData where
  "exampleOutgoingTx = exampleSwapTx\<lparr>txHash := ''0x02''\<rparr>"

lemma exampleOutgoing_run:
  "fst (snd (snd (process exampleEnv [] 0 exampleWatcher exampleOutgoingTx))) =
     [] @ SendEvent ''eth_spybot'' (ChatNumber 1001) ''<b>whale</b> swap'' None (SendResolves 500)
        # EditEvent ''eth_spybot'' (ChatNumber 1001) 500 ''<b>whale</b> swap'' None (EditResolves True)
        # []"
  by code_simp

theorem edit_targets_sent_message_witness:
  "fst (snd (snd (process exampleEnv [] 0 exampleWatcher exampleOutgoingTx)))
     = [SendEvent ''eth_spybot'' (ChatNumber 1001) ''<b>whale</b> swap'' None (SendResolves 500)]
       @ EditEvent ''eth_spybot'' (ChatNumber 1001) 500 ''<b>whale</b> swap'' None (EditResolves True) # []
   \<and> (\<exists>t' k'. SendEvent ''eth_spybot'' (ChatNumber 1001) t' k' (SendResolves 500)
          \<in> set [SendEvent ''eth_spybot'' (ChatNumber 1001) ''<b>whale</b> swap'' None (SendResolves 500)])"
proof -
  have run: "fst (snd (snd (process exampleEnv [] 0 exampleWatcher exampleOutgoingTx)))
     = [SendEvent ''eth_spybot'' (ChatNumber 1001) ''<b>whale</b> swap'' None (SendResolves 500)]
       @ EditEvent ''eth_spybot'' (ChatNumber 1001) 500 ''<b>whale</b> swap'' None (EditResolves True) # []"
    using exampleOutgoing_run by simp
  from edit_targets_sent_message [of exampleEnv "[]" 0 exampleWatcher exampleOutgoingTx] run
  have "\<exists>t' k'. SendEvent ''eth_spybot'' (ChatNumber 1001) t' k' (SendResolves 500)
          \<in> set [SendEvent ''eth_spybot'' (ChatNumber 1001) ''<b>whale</b> swap'' None (SendResolves 500)]"
    by blast
  with run show ?thesis by blast
qed

end
